theory Spec2Isabelle
  imports Main
begin

section \<open>Memorija: a map whose keys can expire\<close>

text \<open>
  The development embeds the two classes of the repository, \<open>MemorijaEntry\<close> and
  \<open>Memorija\<close>, together with the two host facilities the code relies on: the clock
  (\<open>Date.now\<close>) and the one-shot timer queue (\<open>setTimeout\<close>, \<open>clearTimeout\<close>).

  Modelling decisions.
  \<^item> Times are whole milliseconds. A JavaScript number is a double; the model has
    the integers among them, and rounds every sum and difference to the nearest double as
    the code's arithmetic does. \<open>NaN\<close>, \<open>Infinity\<close> and fractions are outside the model.
  \<^item> The host is Node.js. The clock read by \<open>Date.now\<close> and the clock that drives the
    timer queue are the same clock. A timer installed at time \<open>t\<close> runs at a moment of the
    scheduler's choice at which the clock shows at least \<open>t\<close> plus the delay the host
    gives it, which is the delay asked for only up to \<open>2^31 - 1\<close> milliseconds.
  \<^item> A raw entry is a JavaScript array and has an identity; the code never writes
    to it after creating it, so the model stores the identity in the entry
    and allocates a fresh one for every array literal.
\<close>

subsection \<open>JavaScript values\<close>

text \<open>A value of type \<open>number | null | undefined\<close>.\<close>

datatype jsnum = Undefined | Null | Num int

text \<open>
  A value of the generic type \<open>V\<close>: \<open>undefined\<close> inhabits every type of the
  source (it is compiled without strict null checks), so it is a value
  that can be stored like any other.
\<close>

datatype 'v jsval = VUndefined | Val 'v

text \<open>
  \<open>ToNumber\<close> on the values above: \<open>null\<close> is \<open>0\<close>, \<open>undefined\<close> is \<open>NaN\<close>,
  which the model does not have.
\<close>

fun ToNumber :: "jsnum \<Rightarrow> int option" where
  "ToNumber Undefined = None"
| "ToNumber Null = Some 0"
| "ToNumber (Num n) = Some n"

text \<open>
  The nearest double of an integer, ties to the even significand. A double has 53
  significant bits: a natural number of \<open>bitlen m\<close> bits keeps its upper 53 and is
  rounded at the unit \<open>2 ^ (bitlen m - 53)\<close>. Every integer of magnitude up to \<open>2^53\<close>
  is its own double. (From \<open>2^1024 - 2^970\<close> on JavaScript rounds to \<open>Infinity\<close>; no sum
  or difference of a clock time and a double gets there.)
\<close>

fun bitlen :: "nat \<Rightarrow> nat" where
  "bitlen n = (if n = 0 then 0 else Suc (bitlen (n div 2)))"

declare bitlen.simps [simp del]

definition round_nat :: "nat \<Rightarrow> nat" where
  "round_nat m =
     (let q = 2 ^ (bitlen m - 53); lo = (m div q) * q; r = m - lo
      in if 2 * r < q then lo
         else if q < 2 * r then lo + q
         else if even (m div q) then lo else lo + q)"

definition to_double :: "int \<Rightarrow> int" where
  "to_double x = (if x < 0 then - int (round_nat (nat (- x))) else int (round_nat (nat x)))"

text \<open>
  \<open>a + b\<close>, \<open>a - b\<close> and \<open>a < b\<close> for a \<open>jsnum\<close> and a number: the exact sum or
  difference, rounded to a double. Where JavaScript gives \<open>NaN\<close> the arithmetic returns
  \<open>Undefined\<close>; a comparison with \<open>NaN\<close> is false.
\<close>

definition js_add :: "int \<Rightarrow> jsnum \<Rightarrow> jsnum" where
  "js_add a b =
     (case ToNumber b of None \<Rightarrow> Undefined | Some n \<Rightarrow> Num (to_double (a + n)))"

definition js_sub :: "jsnum \<Rightarrow> int \<Rightarrow> jsnum" where
  "js_sub a b =
     (case ToNumber a of None \<Rightarrow> Undefined | Some n \<Rightarrow> Num (to_double (n - b)))"

definition js_less :: "jsnum \<Rightarrow> int \<Rightarrow> bool" where
  "js_less a b = (case ToNumber a of None \<Rightarrow> False | Some n \<Rightarrow> n < b)"

subsection \<open>MemorijaEntry\<close>

record 'v MemorijaEntry =
  e_value :: "'v jsval"
  e_expireAt :: jsnum

definition MemorijaEntry_new :: "'v jsval \<Rightarrow> jsnum \<Rightarrow> 'v MemorijaEntry" where
  "MemorijaEntry_new v expireAt =
     \<lparr>e_value = v, e_expireAt = (if expireAt = Undefined then Null else expireAt)\<rparr>"

definition entry_value :: "'v MemorijaEntry \<Rightarrow> 'v jsval" where
  "entry_value e = e_value e"

definition entry_expireAt :: "'v MemorijaEntry \<Rightarrow> jsnum" where
  "entry_expireAt e = e_expireAt e"

text \<open>The getters \<open>ttl\<close> and \<open>isExpired\<close> read the clock, here the argument \<open>now\<close>.\<close>

definition entry_ttl :: "int \<Rightarrow> 'v MemorijaEntry \<Rightarrow> jsnum" where
  "entry_ttl now e =
     (if entry_expireAt e = Null then Null else js_sub (entry_expireAt e) now)"

definition entry_isExpired :: "int \<Rightarrow> 'v MemorijaEntry \<Rightarrow> bool" where
  "entry_isExpired now e =
     (if entry_expireAt e = Null then False else js_less (entry_expireAt e) now)"

subsection \<open>The host: Map, WeakMap, clock and timers\<close>

text \<open>
  A JavaScript \<open>Map\<close> iterates in insertion order: an association list with
  distinct keys. \<open>Map_set\<close> on a present key replaces the value in place; on a
  new key it appends.
\<close>

type_synonym ('k, 'a) jsmap = "('k \<times> 'a) list"

fun Map_get :: "('k, 'a) jsmap \<Rightarrow> 'k \<Rightarrow> 'a option" where
  "Map_get [] k = None"
| "Map_get ((k', a) # m) k = (if k' = k then Some a else Map_get m k)"

fun Map_has :: "('k, 'a) jsmap \<Rightarrow> 'k \<Rightarrow> bool" where
  "Map_has [] k = False"
| "Map_has ((k', a) # m) k = (k' = k \<or> Map_has m k)"

fun Map_set :: "('k, 'a) jsmap \<Rightarrow> 'k \<Rightarrow> 'a \<Rightarrow> ('k, 'a) jsmap" where
  "Map_set [] k a = [(k, a)]"
| "Map_set ((k', a') # m) k a =
     (if k' = k then (k', a) # m else (k', a') # Map_set m k a)"

fun Map_delete :: "('k, 'a) jsmap \<Rightarrow> 'k \<Rightarrow> ('k, 'a) jsmap" where
  "Map_delete [] k = []"
| "Map_delete ((k', a) # m) k = (if k' = k then m else (k', a) # Map_delete m k)"

text \<open>
  A raw entry \<open>[expireAt, value]\<close> with the identity of the array. The first
  component is \<open>undefined\<close> for a key without a time to live.
\<close>

record 'v RawEntry =
  re_id :: nat
  re_expireAt :: jsnum
  re_value :: "'v jsval"

text \<open>
  A pending timeout: when it is due, and what its callback closes over (the key
  and the entry of the \<open>createTimer\<close> call that installed it).
\<close>

record 'k timeout =
  due :: int
  cb_key :: 'k
  cb_entry :: nat

text \<open>
  The state: the two fields of a \<open>Memorija\<close> object, and the host's clock, timer
  queue and allocation counters. The \<open>WeakMap\<close> \<open>timers\<close> is keyed by the identity
  of a raw entry and holds the handle \<open>setTimeout\<close> returned.
\<close>

record ('k, 'v) memorija =
  this_map :: "('k, 'v RawEntry) jsmap"
  this_timers :: "nat \<rightharpoonup> nat"
  clock :: int
  pending :: "nat \<rightharpoonup> 'k timeout"
  next_obj :: nat
  next_handle :: nat

definition Memorija_new :: "int \<Rightarrow> ('k, 'v) memorija" where
  "Memorija_new t0 =
     \<lparr>this_map = [], this_timers = Map.empty, clock = t0, pending = Map.empty,
      next_obj = 0, next_handle = 0\<rparr>"

definition Date_now :: "('k, 'v) memorija \<Rightarrow> int" where
  "Date_now s = clock s"

text \<open>
  The delay Node.js gives a timeout asked for with \<open>timeout\<close>. The delay asked for is
  \<open>ToNumber timeout\<close> (so \<open>null\<close> asks for \<open>0\<close>, as does the \<open>NaN\<close> of \<open>undefined\<close>).
  A delay above \<open>2^31 - 1\<close> is set to \<open>1\<close>. A delay below \<open>1\<close> Node.js sets to \<open>1\<close> as
  well; here it is \<open>0\<close>, so that such a timeout may run at once: the millisecond is
  below the granularity of the timers, about which nothing is claimed.
\<close>

definition timer_delay :: "jsnum \<Rightarrow> int" where
  "timer_delay timeout =
     (case ToNumber timeout of None \<Rightarrow> 0
      | Some n \<Rightarrow> if 2147483647 < n then 1 else if n < 1 then 0 else n)"

text \<open>\<open>setTimeout(callback, timeout)\<close>: a new handle, due after the host's delay.\<close>

definition setTimeout ::
  "('k, 'v) memorija \<Rightarrow> 'k \<Rightarrow> nat \<Rightarrow> jsnum \<Rightarrow> nat \<times> ('k, 'v) memorija" where
  "setTimeout s key entry delay =
     (let h = next_handle s;
          d = timer_delay delay
      in (h, s\<lparr>pending := (pending s)(h \<mapsto> \<lparr>due = clock s + d, cb_key = key, cb_entry = entry\<rparr>),
               next_handle := Suc h\<rparr>))"

text \<open>\<open>clearTimeout(handle)\<close>; \<open>clearTimeout(undefined)\<close> does nothing.\<close>

definition clearTimeout :: "('k, 'v) memorija \<Rightarrow> nat option \<Rightarrow> ('k, 'v) memorija" where
  "clearTimeout s ho =
     (case ho of None \<Rightarrow> s | Some h \<Rightarrow> s\<lparr>pending := (pending s)(h := None)\<rparr>)"

text \<open>
  \<open>WeakMap.get\<close> and \<open>WeakMap.delete\<close> with a key that may be \<open>undefined\<close>
  (\<open>None\<close>): then \<open>get\<close> returns \<open>undefined\<close> and \<open>delete\<close> changes nothing.
\<close>

definition WeakMap_get :: "(nat \<rightharpoonup> nat) \<Rightarrow> 'v RawEntry option \<Rightarrow> nat option" where
  "WeakMap_get w eo = (case eo of None \<Rightarrow> None | Some e \<Rightarrow> w (re_id e))"

definition WeakMap_delete :: "(nat \<rightharpoonup> nat) \<Rightarrow> 'v RawEntry option \<Rightarrow> (nat \<rightharpoonup> nat)" where
  "WeakMap_delete w eo = (case eo of None \<Rightarrow> w | Some e \<Rightarrow> w(re_id e := None))"

subsection \<open>Memorija: reading\<close>

definition size_m :: "('k, 'v) memorija \<Rightarrow> nat" where
  "size_m s = length (this_map s)"

definition getRawEntry :: "('k, 'v) memorija \<Rightarrow> 'k \<Rightarrow> 'v RawEntry option" where
  "getRawEntry s key = Map_get (this_map s) key"

definition get :: "('k, 'v) memorija \<Rightarrow> 'k \<Rightarrow> 'v jsval" where
  "get s key = (case getRawEntry s key of None \<Rightarrow> VUndefined | Some r \<Rightarrow> re_value r)"

definition getEntry :: "('k, 'v) memorija \<Rightarrow> 'k \<Rightarrow> 'v MemorijaEntry option" where
  "getEntry s key =
     (case getRawEntry s key of None \<Rightarrow> None
      | Some r \<Rightarrow> Some (MemorijaEntry_new (re_value r) (re_expireAt r)))"

definition has :: "('k, 'v) memorija \<Rightarrow> 'k \<Rightarrow> bool" where
  "has s key = Map_has (this_map s) key"

definition keys :: "('k, 'v) memorija \<Rightarrow> 'k list" where
  "keys s = map fst (this_map s)"

definition values_m :: "('k, 'v) memorija \<Rightarrow> 'v jsval list" where
  "values_m s = map (\<lambda>v. re_value v) (map snd (this_map s))"

definition entries :: "('k, 'v) memorija \<Rightarrow> ('k \<times> 'v jsval) list" where
  "entries s = map (\<lambda>(k, v). (k, re_value v)) (this_map s)"

definition fullEntries :: "('k, 'v) memorija \<Rightarrow> ('k \<times> 'v MemorijaEntry) list" where
  "fullEntries s =
     map (\<lambda>(k, v). (k, MemorijaEntry_new (re_value v) (re_expireAt v))) (this_map s)"

definition fullValues :: "('k, 'v) memorija \<Rightarrow> 'v MemorijaEntry list" where
  "fullValues s =
     map (\<lambda>v. MemorijaEntry_new (re_value v) (re_expireAt v)) (map snd (this_map s))"

text \<open>
  \<open>forEach\<close>: the callback's effect is a function on a state \<open>'a\<close> of the caller;
  a callback that changes the map it iterates is outside the model.
\<close>

definition forEach ::
  "('k, 'v) memorija \<Rightarrow> ('v jsval \<Rightarrow> 'k \<Rightarrow> 'a \<Rightarrow> 'a) \<Rightarrow> 'a \<Rightarrow> 'a" where
  "forEach s callbackfn a = fold (\<lambda>(k, v) a. callbackfn (re_value v) k a) (this_map s) a"

text \<open>The iteration protocol, \<open>[Symbol.iterator]\<close>.\<close>

definition iterator :: "('k, 'v) memorija \<Rightarrow> ('k \<times> 'v jsval) list" where
  "iterator s = entries s"

subsection \<open>Memorija: timers and writing\<close>

definition createTimer ::
  "('k, 'v) memorija \<Rightarrow> 'k \<Rightarrow> 'v RawEntry \<Rightarrow> jsnum \<Rightarrow> ('k, 'v) memorija" where
  "createTimer s key entry timeout =
     (let (h, s') = setTimeout s key (re_id entry) timeout
      in s'\<lparr>this_timers := (this_timers s')(re_id entry \<mapsto> h)\<rparr>)"

text \<open>The body of the callback \<open>createTimer\<close> hands to \<open>setTimeout\<close>.\<close>

definition timer_callback :: "('k, 'v) memorija \<Rightarrow> 'k \<Rightarrow> nat \<Rightarrow> ('k, 'v) memorija" where
  "timer_callback s key entry =
     (let s' = s\<lparr>this_timers := (this_timers s)(entry := None)\<rparr>
      in s'\<lparr>this_map := Map_delete (this_map s') key\<rparr>)"

definition cancelTimerForRawEntry ::
  "('k, 'v) memorija \<Rightarrow> 'v RawEntry option \<Rightarrow> ('k, 'v) memorija" where
  "cancelTimerForRawEntry s entry =
     (let s' = clearTimeout s (WeakMap_get (this_timers s) entry)
      in s'\<lparr>this_timers := WeakMap_delete (this_timers s') entry\<rparr>)"

definition cancelTimerForKey :: "('k, 'v) memorija \<Rightarrow> 'k \<Rightarrow> ('k, 'v) memorija" where
  "cancelTimerForKey s key = cancelTimerForRawEntry s (getRawEntry s key)"

definition cancelTimers :: "('k, 'v) memorija \<Rightarrow> ('k, 'v) memorija" where
  "cancelTimers s =
     fold (\<lambda>v s'. cancelTimerForRawEntry s' (Some v)) (map snd (this_map s)) s"

text \<open>
  \<open>set\<close>. The guard is \<open>ttl !== undefined\<close>, so \<open>null\<close> takes the branch of a given
  time to live, with \<open>Date.now() + null = Date.now()\<close>.
\<close>

definition set_m ::
  "('k, 'v) memorija \<Rightarrow> 'k \<Rightarrow> 'v jsval \<Rightarrow> jsnum \<Rightarrow> ('k, 'v) memorija" where
  "set_m s key v ttl =
     (let s1 = cancelTimerForKey s key;
          expireAt = (if ttl \<noteq> Undefined then js_add (Date_now s1) ttl else Undefined);
          entry = \<lparr>re_id = next_obj s1, re_expireAt = expireAt, re_value = v\<rparr>;
          s2 = s1\<lparr>next_obj := Suc (next_obj s1)\<rparr>;
          s3 = s2\<lparr>this_map := Map_set (this_map s2) key entry\<rparr>
      in if ttl \<noteq> Undefined then createTimer s3 key entry ttl else s3)"

text \<open>\<open>ttl\<close> and \<open>expireAt\<close>: getter when the second argument is \<open>undefined\<close>.\<close>

definition ttl ::
  "('k, 'v) memorija \<Rightarrow> 'k \<Rightarrow> jsnum \<Rightarrow> jsnum \<times> ('k, 'v) memorija" where
  "ttl s key t =
     (case getEntry s key of None \<Rightarrow> (Undefined, s)
      | Some entry \<Rightarrow>
          if t = Undefined then (entry_ttl (Date_now s) entry, s)
          else (t, set_m s key (entry_value entry) t))"

definition expireAt ::
  "('k, 'v) memorija \<Rightarrow> 'k \<Rightarrow> jsnum \<Rightarrow> jsnum \<times> ('k, 'v) memorija" where
  "expireAt s key x =
     (case getRawEntry s key of None \<Rightarrow> (Undefined, s)
      | Some entry \<Rightarrow>
          if x = Undefined then (re_expireAt entry, s)
          else if x = Null then (Null, set_m s key (re_value entry) Undefined)
          else (x, set_m s key (re_value entry) (js_sub x (Date_now s))))"

definition delete :: "('k, 'v) memorija \<Rightarrow> 'k \<Rightarrow> bool \<times> ('k, 'v) memorija" where
  "delete s key =
     (let s' = cancelTimerForKey s key
      in (Map_has (this_map s') key, s'\<lparr>this_map := Map_delete (this_map s') key\<rparr>))"

definition clear :: "('k, 'v) memorija \<Rightarrow> ('k, 'v) memorija" where
  "clear s = (let s' = cancelTimers s in s'\<lparr>this_map := []\<rparr>)"

subsection \<open>The scheduler and runs\<close>

text \<open>
  The host runs a pending timeout once, at a moment of its choice from the time it is
  due: it takes the timeout off the queue and calls the callback. It never runs
  a cleared one (that one is not on the queue). When a timeout is due is the host's
  matter alone (\<open>setTimeout\<close> above): the deadline stored in the record plays no part,
  and a timeout whose delay the host has cut short runs long before that deadline.
  The timer queue runs on a clock of its own; that clock and \<open>Date.now\<close> are each cut
  to the millisecond separately, so a timeout may run when \<open>Date.now\<close> still reads one
  millisecond less than the time it is due (\<open>timer_slack\<close>).
\<close>

definition timer_slack :: int where
  "timer_slack = 1"

definition fire :: "('k, 'v) memorija \<Rightarrow> nat \<Rightarrow> ('k, 'v) memorija" where
  "fire s h =
     (case pending s h of None \<Rightarrow> s
      | Some t \<Rightarrow>
          if due t \<le> clock s + timer_slack
          then timer_callback (s\<lparr>pending := (pending s)(h := None)\<rparr>) (cb_key t) (cb_entry t)
          else s)"

definition tick :: "('k, 'v) memorija \<Rightarrow> nat \<Rightarrow> ('k, 'v) memorija" where
  "tick s d = s\<lparr>clock := clock s + int d\<rparr>"

text \<open>
  What can happen to a map: a call of one of its writing methods, time passing,
  the scheduler running a timeout.
\<close>

datatype ('k, 'v) event =
    Set 'k "'v jsval" jsnum
  | Ttl 'k jsnum
  | ExpireAt 'k jsnum
  | Delete 'k
  | Clear
  | Tick nat
  | Fire nat

fun exec :: "('k, 'v) event \<Rightarrow> ('k, 'v) memorija \<Rightarrow> ('k, 'v) memorija" where
  "exec (Set k v t) s = set_m s k v t"
| "exec (Ttl k t) s = snd (ttl s k t)"
| "exec (ExpireAt k x) s = snd (expireAt s k x)"
| "exec (Delete k) s = snd (delete s k)"
| "exec Clear s = clear s"
| "exec (Tick d) s = tick s d"
| "exec (Fire h) s = fire s h"

definition run :: "('k, 'v) event list \<Rightarrow> ('k, 'v) memorija \<Rightarrow> ('k, 'v) memorija" where
  "run evs s = fold exec evs s"

text \<open>The events that are not calls: what the host does on its own.\<close>

fun host_event :: "('k, 'v) event \<Rightarrow> bool" where
  "host_event (Tick d) = True"
| "host_event (Fire h) = True"
| "host_event _ = False"

subsection \<open>Well-formed states\<close>

text \<open>
  The entry and the timeout that \<open>set\<close> creates, named for the proofs.
\<close>

definition new_entry :: "('k, 'v) memorija \<Rightarrow> 'v jsval \<Rightarrow> jsnum \<Rightarrow> 'v RawEntry" where
  "new_entry s v t =
     \<lparr>re_id = next_obj s,
      re_expireAt = (if t \<noteq> Undefined then js_add (clock s) t else Undefined),
      re_value = v\<rparr>"

definition new_timeout :: "('k, 'v) memorija \<Rightarrow> 'k \<Rightarrow> jsnum \<Rightarrow> 'k timeout" where
  "new_timeout s k t =
     \<lparr>due = clock s + timer_delay t, cb_key = k, cb_entry = next_obj s\<rparr>"

text \<open>
  The invariant of the reachable states: keys are distinct; the identities in the map
  are distinct and were allocated; every pending timeout was installed for the entry
  stored under its key, which has a deadline, and is registered for it in \<open>timers\<close>;
  \<open>timers\<close> holds only pending handles; an entry with a deadline has a handle.
\<close>

definition wf_keys :: "('k, 'v) memorija \<Rightarrow> bool" where
  "wf_keys s \<longleftrightarrow> distinct (map fst (this_map s))"

definition wf_ids :: "('k, 'v) memorija \<Rightarrow> bool" where
  "wf_ids s \<longleftrightarrow>
     (\<forall>k e. Map_get (this_map s) k = Some e \<longrightarrow> re_id e < next_obj s)
     \<and> (\<forall>k k' e e'. Map_get (this_map s) k = Some e \<and> Map_get (this_map s) k' = Some e'
            \<and> re_id e = re_id e' \<longrightarrow> k = k')"

definition wf_pending :: "('k, 'v) memorija \<Rightarrow> bool" where
  "wf_pending s \<longleftrightarrow>
     (\<forall>h t. pending s h = Some t \<longrightarrow>
        h < next_handle s
        \<and> this_timers s (cb_entry t) = Some h
        \<and> (\<exists>e. Map_get (this_map s) (cb_key t) = Some e \<and> re_id e = cb_entry t
                \<and> re_expireAt e \<noteq> Undefined))"

definition wf_timers :: "('k, 'v) memorija \<Rightarrow> bool" where
  "wf_timers s \<longleftrightarrow>
     (\<forall>a h. this_timers s a = Some h \<longrightarrow> (\<exists>t. pending s h = Some t \<and> cb_entry t = a))"

definition wf_deadline :: "('k, 'v) memorija \<Rightarrow> bool" where
  "wf_deadline s \<longleftrightarrow>
     (\<forall>k e. Map_get (this_map s) k = Some e \<longrightarrow> re_expireAt e \<noteq> Undefined \<longrightarrow>
        this_timers s (re_id e) \<noteq> None)"

definition wf_state :: "('k, 'v) memorija \<Rightarrow> bool" where
  "wf_state s \<longleftrightarrow> wf_keys s \<and> wf_ids s \<and> wf_pending s \<and> wf_timers s \<and> wf_deadline s"

subsection \<open>The timer of a record\<close>

text \<open>
  The live timeout of a raw entry: the handle \<open>timers\<close> holds for it, if that handle
  is still pending (neither cleared nor run).
\<close>

definition live_timer :: "('k, 'v) memorija \<Rightarrow> 'v RawEntry \<Rightarrow> 'k timeout option" where
  "live_timer s e = (case this_timers s (re_id e) of None \<Rightarrow> None | Some h \<Rightarrow> pending s h)"



subsection \<open>Times within the range of the host\<close>

text \<open>
  An integer that is its own double, and the times to live for which the timer is due
  at the deadline \<open>set\<close> stores: between \<open>0\<close> and the longest delay of the host, with a
  deadline that is its own double. An event is in range when the time to live it hands
  to \<open>set\<close> is; \<open>expireAt\<close> hands on the difference of its instant and the clock.
\<close>

definition exact :: "int \<Rightarrow> bool" where
  "exact x \<longleftrightarrow> \<bar>x\<bar> \<le> 2 ^ 53"

definition ttl_in_range :: "int \<Rightarrow> jsnum \<Rightarrow> bool" where
  "ttl_in_range now t =
     (case t of Undefined \<Rightarrow> True
      | Null \<Rightarrow> exact now
      | Num n \<Rightarrow> 0 \<le> n \<and> n \<le> 2147483647 \<and> exact (now + n))"




subsection \<open>Where the code could throw\<close>

text \<open>
  The source has no \<open>throw\<close>. What can throw in it is the host: reading an index or a
  property of \<open>undefined\<close> is a \<open>TypeError\<close>, and so is \<open>WeakMap.set\<close> with a key that is
  not an object. (\<open>WeakMap.get\<close>, \<open>WeakMap.delete\<close> and \<open>clearTimeout\<close> take \<open>undefined\<close>
  without complaint, and the methods of \<open>Map\<close> take any key.) The operations that
  contain such a step are written out once more with the failure as a value, step by
  step as in the source; \<open>delete\<close>, \<open>clear\<close>, \<open>has\<close>, \<open>size\<close> and the timer callback
  contain none, and the iterations read the raw entries of the map itself.
\<close>

datatype js_error = TypeError

definition then_do :: "js_error + 'a \<Rightarrow> ('a \<Rightarrow> js_error + 'b) \<Rightarrow> js_error + 'b" where
  "then_do m f = (case m of Inl err \<Rightarrow> Inl err | Inr a \<Rightarrow> f a)"

definition prop_of :: "'a option \<Rightarrow> js_error + 'a" where
  "prop_of x = (case x of None \<Rightarrow> Inl TypeError | Some a \<Rightarrow> Inr a)"

definition WeakMap_set ::
  "(nat \<rightharpoonup> nat) \<Rightarrow> 'v RawEntry option \<Rightarrow> nat \<Rightarrow> js_error + (nat \<rightharpoonup> nat)" where
  "WeakMap_set w eo h = (case eo of None \<Rightarrow> Inl TypeError | Some e \<Rightarrow> Inr (w(re_id e \<mapsto> h)))"

definition get_chk :: "('k, 'v) memorija \<Rightarrow> 'k \<Rightarrow> js_error + 'v jsval" where
  "get_chk s key =
     (let result = getRawEntry s key
      in if result = None then Inr VUndefined
         else then_do (prop_of result) (\<lambda>r. Inr (re_value r)))"

definition getEntry_chk ::
  "('k, 'v) memorija \<Rightarrow> 'k \<Rightarrow> js_error + 'v MemorijaEntry option" where
  "getEntry_chk s key =
     (let entry = getRawEntry s key
      in if entry = None then Inr None
         else then_do (prop_of entry)
                (\<lambda>r. Inr (Some (MemorijaEntry_new (re_value r) (re_expireAt r)))))"

definition createTimer_chk ::
  "('k, 'v) memorija \<Rightarrow> 'k \<Rightarrow> 'v RawEntry \<Rightarrow> jsnum \<Rightarrow> js_error + ('k, 'v) memorija" where
  "createTimer_chk s key entry timeout =
     (let (h, s') = setTimeout s key (re_id entry) timeout
      in then_do (WeakMap_set (this_timers s') (Some entry) h)
           (\<lambda>w. Inr (s'\<lparr>this_timers := w\<rparr>)))"

definition set_chk ::
  "('k, 'v) memorija \<Rightarrow> 'k \<Rightarrow> 'v jsval \<Rightarrow> jsnum \<Rightarrow> js_error + ('k, 'v) memorija" where
  "set_chk s key v t =
     (let s1 = cancelTimerForKey s key;
          deadline = (if t \<noteq> Undefined then js_add (Date_now s1) t else Undefined);
          entry = \<lparr>re_id = next_obj s1, re_expireAt = deadline, re_value = v\<rparr>;
          s2 = s1\<lparr>next_obj := Suc (next_obj s1)\<rparr>;
          s3 = s2\<lparr>this_map := Map_set (this_map s2) key entry\<rparr>
      in if t \<noteq> Undefined then createTimer_chk s3 key entry t else Inr s3)"

definition ttl_chk ::
  "('k, 'v) memorija \<Rightarrow> 'k \<Rightarrow> jsnum \<Rightarrow> js_error + (jsnum \<times> ('k, 'v) memorija)" where
  "ttl_chk s key t =
     then_do (getEntry_chk s key)
       (\<lambda>entry.
          if entry = None then Inr (Undefined, s)
          else if t = Undefined
          then then_do (prop_of entry) (\<lambda>e. Inr (entry_ttl (Date_now s) e, s))
          else then_do (prop_of entry)
                 (\<lambda>e. then_do (set_chk s key (entry_value e) t) (\<lambda>s'. Inr (t, s'))))"

definition expireAt_chk ::
  "('k, 'v) memorija \<Rightarrow> 'k \<Rightarrow> jsnum \<Rightarrow> js_error + (jsnum \<times> ('k, 'v) memorija)" where
  "expireAt_chk s key x =
     (let entry = getRawEntry s key
      in if entry = None then Inr (Undefined, s)
         else if x = Undefined then then_do (prop_of entry) (\<lambda>r. Inr (re_expireAt r, s))
         else if x = Null
         then then_do (prop_of entry)
                (\<lambda>r. then_do (set_chk s key (re_value r) Undefined) (\<lambda>s'. Inr (Null, s')))
         else then_do (prop_of entry)
                (\<lambda>r. then_do (set_chk s key (re_value r) (js_sub x (Date_now s)))
                        (\<lambda>s'. Inr (x, s'))))"

fun exec_chk :: "('k, 'v) event \<Rightarrow> ('k, 'v) memorija \<Rightarrow> js_error + ('k, 'v) memorija" where
  "exec_chk (Set k v t) s = set_chk s k v t"
| "exec_chk (Ttl k t) s = then_do (ttl_chk s k t) (\<lambda>r. Inr (snd r))"
| "exec_chk (ExpireAt k x) s = then_do (expireAt_chk s k x) (\<lambda>r. Inr (snd r))"
| "exec_chk (Delete k) s = Inr (snd (delete s k))"
| "exec_chk Clear s = Inr (clear s)"
| "exec_chk (Tick d) s = Inr (tick s d)"
| "exec_chk (Fire h) s = Inr (fire s h)"

fun run_chk :: "('k, 'v) event list \<Rightarrow> ('k, 'v) memorija \<Rightarrow> js_error + ('k, 'v) memorija" where
  "run_chk [] s = Inr s"
| "run_chk (ev # evs) s = then_do (exec_chk ev s) (run_chk evs)"

section \<open>The host map\<close>

lemma bitlen_le: "n < 2 ^ k \<Longrightarrow> bitlen n \<le> k"
proof (induction k arbitrary: n)
  case 0
  then show ?case by (simp add: bitlen.simps)
next
  case (Suc k)
  show ?case
  proof (cases "n = 0")
    case True
    then show ?thesis by (simp add: bitlen.simps)
  next
    case False
    from Suc.prems have "n div 2 < 2 ^ k" by simp
    from Suc.IH [OF this] False show ?thesis by (subst bitlen.simps) simp
  qed
qed

lemma bitlen_gt: "2 ^ k \<le> n \<Longrightarrow> k < bitlen n"
proof (induction k arbitrary: n)
  case 0
  then show ?case by (subst bitlen.simps) simp
next
  case (Suc k)
  from Suc.prems have "2 ^ k \<le> n div 2" by simp
  moreover have "n \<noteq> 0"
  proof -
    have "(0::nat) < 2 ^ Suc k" by simp
    also note Suc.prems
    finally show ?thesis by simp
  qed
  ultimately have "2 ^ k \<le> n div 2" and "n \<noteq> 0" by simp_all
  from Suc.IH [OF this(1)] this(2) show ?case by (subst bitlen.simps) simp
qed

lemma bitlen_54: "2 ^ 53 \<le> m \<Longrightarrow> m < 2 ^ 54 \<Longrightarrow> bitlen m = 54"
  using bitlen_gt [of 53 m] bitlen_le [of m 54] by simp

lemma round_nat_exact: "m \<le> 2 ^ 53 \<Longrightarrow> round_nat m = m"
proof (cases "m < 2 ^ 53")
  case True
  from bitlen_le [OF True] have "bitlen m - 53 = 0" by simp
  then show ?thesis by (simp add: round_nat_def)
next
  case False
  assume "m \<le> 2 ^ 53"
  with False have m: "m = 2 ^ 53" by simp
  have "m < 2 ^ 54" by (simp add: m)
  from bitlen_le [OF this] have "bitlen m - 53 = 0 \<or> bitlen m - 53 = 1" by arith
  then show ?thesis
  proof
    assume "bitlen m - 53 = 0"
    then show ?thesis by (simp add: round_nat_def)
  next
    assume "bitlen m - 53 = 1"
    then show ?thesis by (simp add: round_nat_def Let_def m)
  qed
qed

lemma to_double_exact: "\<bar>x\<bar> \<le> 2 ^ 53 \<Longrightarrow> to_double x = x"
proof -
  assume a: "\<bar>x\<bar> \<le> 2 ^ 53"
  then have "nat x \<le> 2 ^ 53" "nat (- x) \<le> 2 ^ 53" by (simp_all add: nat_le_iff)
  then show ?thesis by (simp add: to_double_def round_nat_exact)
qed

text \<open>
  Beyond \<open>2^53\<close> the rounding shows: \<open>2^53 + 1\<close> lies halfway between two doubles and
  goes to the even one below, \<open>2^53 + 3\<close> to the even one above.
\<close>

lemma to_double_tie_down: "to_double 9007199254740993 = 9007199254740992"
proof -
  have "bitlen 9007199254740993 = 54" by (rule bitlen_54) simp_all
  then show ?thesis by (simp add: to_double_def round_nat_def Let_def)
qed

lemma to_double_tie_up: "to_double 9007199254740995 = 9007199254740996"
proof -
  have "bitlen 9007199254740995 = 54" by (rule bitlen_54) simp_all
  then show ?thesis by (simp add: to_double_def round_nat_def Let_def)
qed

lemma Map_has_keys: "Map_has m k \<longleftrightarrow> k \<in> set (map fst m)"
  by (induction m) auto

lemma Map_has_get: "Map_has m k \<longleftrightarrow> Map_get m k \<noteq> None"
  by (induction m) auto

lemma Map_get_set: "Map_get (Map_set m k a) k' = (if k' = k then Some a else Map_get m k')"
  by (induction m) auto

lemma Map_get_delete_other: "k' \<noteq> k \<Longrightarrow> Map_get (Map_delete m k) k' = Map_get m k'"
  by (induction m) auto

lemma Map_get_None: "Map_get m k = None \<longleftrightarrow> k \<notin> set (map fst m)"
  by (induction m) (auto split: if_splits)

lemma keys_Map_delete: "map fst (Map_delete m k) = remove1 k (map fst m)"
  by (induction m) auto

lemma Map_get_delete_same: "distinct (map fst m) \<Longrightarrow> Map_get (Map_delete m k) k = None"
  by (simp add: Map_get_None keys_Map_delete)

lemma keys_Map_set:
  "map fst (Map_set m k a) = (if Map_has m k then map fst m else map fst m @ [k])"
  by (induction m) auto

lemma Map_get_in: "Map_get m k = Some a \<Longrightarrow> (k, a) \<in> set m"
  by (induction m) (auto split: if_splits)


lemma length_Map_set:
  "length (Map_set m k a) = (if Map_has m k then length m else Suc (length m))"
  by (induction m) auto

section \<open>The state after each operation\<close>

text \<open>Runs unfold event by event; \<open>eval_defs\<close> evaluates a run on a concrete map.\<close>

lemma run_Nil [simp]: "run [] s = s"
  by (simp add: run_def)

lemma run_Cons [simp]: "run (ev # evs) s = run evs (exec ev s)"
  by (simp add: run_def)

lemmas eval_defs =
  Memorija_new_def set_m_def delete_def clear_def cancelTimers_def ttl_def expireAt_def
  fire_def tick_def timer_callback_def createTimer_def setTimeout_def clearTimeout_def
  cancelTimerForKey_def cancelTimerForRawEntry_def getRawEntry_def getEntry_def get_def has_def
  WeakMap_get_def WeakMap_delete_def Date_now_def Let_def js_add_def js_sub_def
  MemorijaEntry_new_def entry_ttl_def entry_value_def entry_expireAt_def live_timer_def
  timer_delay_def timer_slack_def to_double_exact

lemma this_map_cancelTimerForRawEntry [simp]:
  "this_map (cancelTimerForRawEntry s eo) = this_map s"
  by (simp add: cancelTimerForRawEntry_def clearTimeout_def Let_def split: option.splits)

lemma this_map_cancelTimerForKey [simp]: "this_map (cancelTimerForKey s k) = this_map s"
  by (simp add: cancelTimerForKey_def)

lemma this_map_createTimer [simp]: "this_map (createTimer s k e t) = this_map s"
  by (simp add: createTimer_def setTimeout_def Let_def)

lemma clock_cancelTimerForKey [simp]: "clock (cancelTimerForKey s k) = clock s"
  by (simp add: cancelTimerForKey_def cancelTimerForRawEntry_def clearTimeout_def Let_def
      split: option.splits)

lemma next_obj_cancelTimerForKey [simp]: "next_obj (cancelTimerForKey s k) = next_obj s"
  by (simp add: cancelTimerForKey_def cancelTimerForRawEntry_def clearTimeout_def Let_def
      split: option.splits)

lemma next_handle_cancelTimerForKey [simp]:
  "next_handle (cancelTimerForKey s k) = next_handle s"
  by (simp add: cancelTimerForKey_def cancelTimerForRawEntry_def clearTimeout_def Let_def
      split: option.splits)

lemma this_timers_cancelTimerForKey:
  "this_timers (cancelTimerForKey s k) =
     (case Map_get (this_map s) k of None \<Rightarrow> this_timers s
      | Some e \<Rightarrow> (this_timers s)(re_id e := None))"
  by (simp add: cancelTimerForKey_def cancelTimerForRawEntry_def clearTimeout_def Let_def
      getRawEntry_def WeakMap_get_def WeakMap_delete_def split: option.splits)

lemma pending_cancelTimerForKey:
  "pending (cancelTimerForKey s k) =
     (case Map_get (this_map s) k of None \<Rightarrow> pending s
      | Some e \<Rightarrow> (case this_timers s (re_id e) of None \<Rightarrow> pending s
                  | Some h \<Rightarrow> (pending s)(h := None)))"
  by (simp add: cancelTimerForKey_def cancelTimerForRawEntry_def clearTimeout_def Let_def
      getRawEntry_def WeakMap_get_def WeakMap_delete_def split: option.splits)

lemma this_map_set_m:
  "this_map (set_m s k v t) = Map_set (this_map s) k (new_entry s v t)"
  by (simp add: set_m_def Let_def Date_now_def new_entry_def)

lemma clock_set_m [simp]: "clock (set_m s k v t) = clock s"
  by (simp add: set_m_def Let_def createTimer_def setTimeout_def)

lemma next_obj_set_m [simp]: "next_obj (set_m s k v t) = Suc (next_obj s)"
  by (simp add: set_m_def Let_def createTimer_def setTimeout_def)

lemma next_handle_set_m:
  "next_handle (set_m s k v t) =
     (if t \<noteq> Undefined then Suc (next_handle s) else next_handle s)"
  by (simp add: set_m_def Let_def createTimer_def setTimeout_def)

lemma this_timers_set_m:
  "this_timers (set_m s k v t) =
     (if t \<noteq> Undefined
      then (this_timers (cancelTimerForKey s k))(next_obj s \<mapsto> next_handle s)
      else this_timers (cancelTimerForKey s k))"
  by (simp add: set_m_def Let_def createTimer_def setTimeout_def)

lemma pending_set_m:
  "pending (set_m s k v t) =
     (if t \<noteq> Undefined
      then (pending (cancelTimerForKey s k))(next_handle s \<mapsto> new_timeout s k t)
      else pending (cancelTimerForKey s k))"
  by (simp add: set_m_def Let_def createTimer_def setTimeout_def new_timeout_def)

section \<open>The invariant of the reachable states\<close>

lemma wf_new: "wf_state (Memorija_new t0)"
  by (simp add: wf_state_def wf_keys_def wf_ids_def wf_pending_def wf_timers_def wf_deadline_def
      Memorija_new_def)

lemma wf_keys_set_m: "wf_keys s \<Longrightarrow> wf_keys (set_m s k v t)"
  by (simp add: wf_keys_def this_map_set_m keys_Map_set Map_has_keys)

lemma wf_idsD1: "wf_ids s \<Longrightarrow> Map_get (this_map s) k = Some e \<Longrightarrow> re_id e < next_obj s"
  unfolding wf_ids_def by blast

lemma wf_idsD2:
  "wf_ids s \<Longrightarrow> Map_get (this_map s) k = Some e \<Longrightarrow> Map_get (this_map s) k' = Some e'
   \<Longrightarrow> re_id e = re_id e' \<Longrightarrow> k = k'"
  unfolding wf_ids_def by blast

lemma wf_pendingD:
  "wf_pending s \<Longrightarrow> pending s h = Some t \<Longrightarrow>
     h < next_handle s \<and> this_timers s (cb_entry t) = Some h
     \<and> (\<exists>e. Map_get (this_map s) (cb_key t) = Some e \<and> re_id e = cb_entry t
             \<and> re_expireAt e \<noteq> Undefined)"
  unfolding wf_pending_def by blast

lemma wf_timersD:
  "wf_timers s \<Longrightarrow> this_timers s a = Some h \<Longrightarrow> \<exists>t. pending s h = Some t \<and> cb_entry t = a"
  unfolding wf_timers_def by blast

lemma wf_deadlineD:
  "wf_deadline s \<Longrightarrow> Map_get (this_map s) k = Some e \<Longrightarrow> re_expireAt e \<noteq> Undefined
   \<Longrightarrow> \<exists>h. this_timers s (re_id e) = Some h"
  unfolding wf_deadline_def by blast

lemma wf_timers_inj:
  assumes "wf_timers s" "this_timers s a = Some h" "this_timers s b = Some h"
  shows "a = b"
  using wf_timersD [OF assms(1,2)] wf_timersD [OF assms(1,3)] by auto

lemma wf_timers_handle:
  assumes "wf_timers s" "wf_pending s" "this_timers s a = Some h"
  shows "h < next_handle s"
  using wf_timersD [OF assms(1,3)] wf_pendingD [OF assms(2)] by blast

lemma wf_ids_set_m:
  assumes w: "wf_ids s" shows "wf_ids (set_m s k v t)"
proof -
  let ?m' = "this_map (set_m s k v t)"
  have old: "Map_get (this_map s) k' = Some e"
    if "Map_get ?m' k' = Some e" "k' \<noteq> k" for k' e
    using that by (simp add: this_map_set_m Map_get_set)
  have old_lt: "re_id e < next_obj s"
    if "Map_get ?m' k' = Some e" "k' \<noteq> k" for k' e
    using wf_idsD1 [OF w old [OF that]] .
  have new: "re_id e = next_obj s" if "Map_get ?m' k = Some e" for e
    using that by (simp add: this_map_set_m Map_get_set new_entry_def) (cases e, auto)
  show ?thesis
    unfolding wf_ids_def
  proof (intro conjI allI impI)
    fix k' e assume g: "Map_get ?m' k' = Some e"
    show "re_id e < next_obj (set_m s k v t)"
    proof (cases "k' = k")
      case True
      with g new [of e] show ?thesis by simp
    next
      case False
      with old_lt [OF g] show ?thesis by simp
    qed
  next
    fix k1 k2 e1 e2
    assume a: "Map_get ?m' k1 = Some e1 \<and> Map_get ?m' k2 = Some e2 \<and> re_id e1 = re_id e2"
    then have g1: "Map_get ?m' k1 = Some e1" and g2: "Map_get ?m' k2 = Some e2"
      and eq: "re_id e1 = re_id e2" by simp_all
    show "k1 = k2"
    proof (rule ccontr)
      assume ne: "k1 \<noteq> k2"
      consider "k1 = k" "k2 \<noteq> k" | "k1 \<noteq> k" "k2 = k" | "k1 \<noteq> k" "k2 \<noteq> k"
        using ne by blast
      then show False
      proof cases
        case 1
        then have "re_id e1 = next_obj s" "re_id e2 < next_obj s"
          using new [of e1] g1 old_lt [OF g2] by simp_all
        with eq show False by simp
      next
        case 2
        then have "re_id e2 = next_obj s" "re_id e1 < next_obj s"
          using new [of e2] g2 old_lt [OF g1] by simp_all
        with eq show False by simp
      next
        case 3
        from wf_idsD2 [OF w old [OF g1 3(1)] old [OF g2 3(2)] eq] ne show False by simp
      qed
    qed
  qed
qed

lemma js_add_defined: "t \<noteq> Undefined \<Longrightarrow> js_add c t \<noteq> Undefined"
  by (cases t) (simp_all add: js_add_def)

lemma wf_deadline_set_m:
  assumes "wf_state s" shows "wf_deadline (set_m s k v t)"
proof -
  from assms have w: "wf_ids s" "wf_deadline s" by (simp_all add: wf_state_def)
  show ?thesis
    unfolding wf_deadline_def
  proof (intro allI impI)
    fix k' e
    assume g: "Map_get (this_map (set_m s k v t)) k' = Some e" and d: "re_expireAt e \<noteq> Undefined"
    show "this_timers (set_m s k v t) (re_id e) \<noteq> None"
    proof (cases "k' = k")
      case True
      with g have "e = new_entry s v t" by (simp add: this_map_set_m Map_get_set)
      with d show ?thesis
        by (auto simp: this_timers_set_m new_entry_def split: if_splits)
    next
      case False
      with g have g': "Map_get (this_map s) k' = Some e" by (simp add: this_map_set_m Map_get_set)
      from wf_deadlineD [OF w(2) g' d] obtain h where h: "this_timers s (re_id e) = Some h" ..
      have "\<And>e'. Map_get (this_map s) k = Some e' \<Longrightarrow> re_id e' \<noteq> re_id e"
        using wf_idsD2 [OF w(1) g'] False by metis
      with h show ?thesis
        by (auto simp: this_timers_set_m this_timers_cancelTimerForKey split: option.splits)
    qed
  qed
qed

lemma wf_timers_set_m:
  assumes "wf_state s" shows "wf_timers (set_m s k v t)"
proof -
  from assms have w: "wf_ids s" "wf_timers s" "wf_pending s" by (simp_all add: wf_state_def)
  show ?thesis
    unfolding wf_timers_def
  proof (intro allI impI)
    fix a h
    assume a: "this_timers (set_m s k v t) a = Some h"
    show "\<exists>x. pending (set_m s k v t) h = Some x \<and> cb_entry x = a"
    proof (cases "t \<noteq> Undefined \<and> a = next_obj s")
      case True
      with a show ?thesis
        by (simp add: this_timers_set_m pending_set_m new_timeout_def)
    next
      case False
      with a have c: "this_timers (cancelTimerForKey s k) a = Some h"
        by (auto simp: this_timers_set_m split: if_splits)
      then have old: "this_timers s a = Some h"
        by (auto simp: this_timers_cancelTimerForKey split: option.splits if_splits)
      from wf_timersD [OF w(2) old] obtain x where x: "pending s h = Some x" "cb_entry x = a"
        by blast
      have hn: "h \<noteq> next_handle s" using wf_timers_handle [OF w(2,3) old] by simp
      have "h' \<noteq> h"
        if "Map_get (this_map s) k = Some e" "this_timers s (re_id e) = Some h'" for e h'
      proof
        assume "h' = h"
        with that have "this_timers s (re_id e) = Some h" by simp
        from wf_timers_inj [OF w(2) old this] have "a = re_id e" .
        with c that show False by (simp add: this_timers_cancelTimerForKey)
      qed
      with x have "pending (cancelTimerForKey s k) h = Some x"
        by (fastforce simp: pending_cancelTimerForKey split: option.splits)
      with hn x show ?thesis by (simp add: pending_set_m)
    qed
  qed
qed

lemma wf_pending_set_m:
  assumes "wf_state s" shows "wf_pending (set_m s k v t)"
proof -
  from assms have w: "wf_ids s" "wf_timers s" "wf_pending s" by (simp_all add: wf_state_def)
  show ?thesis
    unfolding wf_pending_def
  proof (intro allI impI)
    fix h x
    assume p: "pending (set_m s k v t) h = Some x"
    let ?s' = "set_m s k v t"
    show "h < next_handle ?s' \<and> this_timers ?s' (cb_entry x) = Some h
          \<and> (\<exists>e. Map_get (this_map ?s') (cb_key x) = Some e \<and> re_id e = cb_entry x
                  \<and> re_expireAt e \<noteq> Undefined)"
    proof (cases "t \<noteq> Undefined \<and> h = next_handle s")
      case True
      with p have "x = new_timeout s k t" by (simp add: pending_set_m)
      with True show ?thesis
        by (simp add: next_handle_set_m this_timers_set_m this_map_set_m Map_get_set
            new_timeout_def new_entry_def js_add_defined)
    next
      case False
      with p have c: "pending (cancelTimerForKey s k) h = Some x"
        by (auto simp: pending_set_m split: if_splits)
      then have old: "pending s h = Some x"
        by (auto simp: pending_cancelTimerForKey split: option.splits if_splits)
      from wf_pendingD [OF w(3) old] obtain e where
        e: "h < next_handle s" "this_timers s (cb_entry x) = Some h"
           "Map_get (this_map s) (cb_key x) = Some e" "re_id e = cb_entry x"
           "re_expireAt e \<noteq> Undefined" by blast
      have ne: "cb_key x \<noteq> k"
      proof
        assume "cb_key x = k"
        with e c show False
          by (simp add: pending_cancelTimerForKey)
      qed
      have obj: "cb_entry x \<noteq> next_obj s"
        using wf_idsD1 [OF w(1) e(3)] e(4) by simp
      have "\<And>e'. Map_get (this_map s) k = Some e' \<Longrightarrow> re_id e' \<noteq> cb_entry x"
        using wf_idsD2 [OF w(1) e(3)] ne e(4) by metis
      with e have "this_timers (cancelTimerForKey s k) (cb_entry x) = Some h"
        by (auto simp: this_timers_cancelTimerForKey split: option.splits)
      with e ne obj show ?thesis
        by (auto simp: next_handle_set_m this_timers_set_m this_map_set_m Map_get_set)
    qed
  qed
qed

lemma wf_set_m: "wf_state s \<Longrightarrow> wf_state (set_m s k v t)"
  using wf_keys_set_m [of s k v t] wf_ids_set_m [of s k v t] wf_deadline_set_m [of s k v t]
    wf_timers_set_m [of s k v t] wf_pending_set_m [of s k v t]
  by (simp add: wf_state_def)

lemma delete_fields:
  "this_map (snd (delete s k)) = Map_delete (this_map s) k"
  "this_timers (snd (delete s k)) = this_timers (cancelTimerForKey s k)"
  "pending (snd (delete s k)) = pending (cancelTimerForKey s k)"
  "clock (snd (delete s k)) = clock s"
  "next_obj (snd (delete s k)) = next_obj s"
  "next_handle (snd (delete s k)) = next_handle s"
  by (simp_all add: delete_def Let_def)

lemma Map_get_delete:
  "distinct (map fst m) \<Longrightarrow>
     Map_get (Map_delete m k) k' = (if k' = k then None else Map_get m k')"
  by (simp add: Map_get_delete_same Map_get_delete_other)

lemma pending_cancel_old:
  "pending (cancelTimerForKey s k) h = Some x \<Longrightarrow> pending s h = Some x"
  by (auto simp: pending_cancelTimerForKey split: option.splits if_splits)

lemma pending_cancel_key:
  assumes "wf_pending s" "pending (cancelTimerForKey s k) h = Some x"
  shows "cb_key x \<noteq> k"
proof
  assume "cb_key x = k"
  with wf_pendingD [OF assms(1) pending_cancel_old [OF assms(2)]] assms(2)
  show False by (auto simp: pending_cancelTimerForKey)
qed

lemma timers_cancel_old:
  "this_timers (cancelTimerForKey s k) a = Some h \<Longrightarrow> this_timers s a = Some h"
  by (auto simp: this_timers_cancelTimerForKey split: option.splits if_splits)

lemma timers_cancel_keep:
  assumes "this_timers s a = Some h" "\<And>e. Map_get (this_map s) k = Some e \<Longrightarrow> re_id e \<noteq> a"
  shows "this_timers (cancelTimerForKey s k) a = Some h"
  using assms by (auto simp: this_timers_cancelTimerForKey split: option.splits)

lemma pending_cancel_keep:
  assumes "wf_timers s" "this_timers (cancelTimerForKey s k) a = Some h" "pending s h = Some x"
  shows "pending (cancelTimerForKey s k) h = Some x"
proof -
  note old = timers_cancel_old [OF assms(2)]
  have "h' \<noteq> h"
    if "Map_get (this_map s) k = Some e" "this_timers s (re_id e) = Some h'" for e h'
  proof
    assume "h' = h"
    with that have "this_timers s (re_id e) = Some h" by simp
    from wf_timers_inj [OF assms(1) old this] have "a = re_id e" .
    with assms(2) that show False by (simp add: this_timers_cancelTimerForKey)
  qed
  with assms(3) show ?thesis
    by (fastforce simp: pending_cancelTimerForKey split: option.splits)
qed

lemma wf_delete:
  assumes "wf_state s" shows "wf_state (snd (delete s k))"
proof -
  from assms have w: "wf_keys s" "wf_ids s" "wf_pending s" "wf_timers s" "wf_deadline s"
    by (simp_all add: wf_state_def)
  let ?s' = "snd (delete s k)"
  have get': "Map_get (Map_delete (this_map s) k) k' =
      (if k' = k then None else Map_get (this_map s) k')" for k'
    using w(1) by (simp add: Map_get_delete wf_keys_def)
  have 1: "wf_keys ?s'"
    using w(1) by (simp add: wf_keys_def delete_fields keys_Map_delete)
  have 2: "wf_ids ?s'"
    unfolding wf_ids_def
  proof (intro conjI allI impI)
    fix k' e assume "Map_get (this_map ?s') k' = Some e"
    then show "re_id e < next_obj ?s'"
      using wf_idsD1 [OF w(2), of k' e] by (simp add: get' delete_fields split: if_splits)
  next
    fix k1 k2 e1 e2
    assume "Map_get (this_map ?s') k1 = Some e1 \<and> Map_get (this_map ?s') k2 = Some e2
        \<and> re_id e1 = re_id e2"
    then show "k1 = k2"
      using wf_idsD2 [OF w(2), of k1 e1 k2 e2] by (simp add: get' delete_fields split: if_splits)
  qed
  have 3: "wf_pending ?s'"
    unfolding wf_pending_def
  proof (intro allI impI)
    fix h x assume "pending ?s' h = Some x"
    then have c: "pending (cancelTimerForKey s k) h = Some x" by (simp add: delete_fields)
    note old = pending_cancel_old [OF c]
    note ne = pending_cancel_key [OF w(3) c]
    from wf_pendingD [OF w(3) old] obtain e where
      e: "h < next_handle s" "this_timers s (cb_entry x) = Some h"
         "Map_get (this_map s) (cb_key x) = Some e" "re_id e = cb_entry x"
         "re_expireAt e \<noteq> Undefined" by blast
    have "\<And>e'. Map_get (this_map s) k = Some e' \<Longrightarrow> re_id e' \<noteq> cb_entry x"
      using wf_idsD2 [OF w(2) e(3)] ne e(4) by metis
    from timers_cancel_keep [OF e(2) this] e ne
    show "h < next_handle ?s' \<and> this_timers ?s' (cb_entry x) = Some h
          \<and> (\<exists>e. Map_get (this_map ?s') (cb_key x) = Some e \<and> re_id e = cb_entry x
                  \<and> re_expireAt e \<noteq> Undefined)"
      by (simp add: delete_fields get')
  qed
  have 4: "wf_timers ?s'"
    unfolding wf_timers_def
  proof (intro allI impI)
    fix a h assume "this_timers ?s' a = Some h"
    then have c: "this_timers (cancelTimerForKey s k) a = Some h" by (simp add: delete_fields)
    from wf_timersD [OF w(4) timers_cancel_old [OF c]]
    obtain x where x: "pending s h = Some x" "cb_entry x = a" by blast
    from pending_cancel_keep [OF w(4) c x(1)] x(2)
    show "\<exists>t. pending ?s' h = Some t \<and> cb_entry t = a" by (simp add: delete_fields)
  qed
  have 5: "wf_deadline ?s'"
    unfolding wf_deadline_def
  proof (intro allI impI)
    fix k' e
    assume "Map_get (this_map ?s') k' = Some e" and d: "re_expireAt e \<noteq> Undefined"
    then have ne: "k' \<noteq> k" and g: "Map_get (this_map s) k' = Some e"
      by (simp_all add: get' delete_fields split: if_splits)
    from wf_deadlineD [OF w(5) g d] obtain h where h: "this_timers s (re_id e) = Some h" ..
    have "\<And>e'. Map_get (this_map s) k = Some e' \<Longrightarrow> re_id e' \<noteq> re_id e"
      using wf_idsD2 [OF w(2) g] ne by metis
    from timers_cancel_keep [OF h this]
    show "this_timers ?s' (re_id e) \<noteq> None" by (simp add: delete_fields)
  qed
  from 1 2 3 4 5 show ?thesis by (simp add: wf_state_def)
qed

lemma fire_is_delete:
  assumes "wf_state s" "pending s h = Some x" "due x \<le> clock s + timer_slack"
  shows "fire s h = snd (delete s (cb_key x))"
proof -
  from assms have w: "wf_pending s" by (simp add: wf_state_def)
  from wf_pendingD [OF w assms(2)] obtain e where
    e: "this_timers s (cb_entry x) = Some h"
       "Map_get (this_map s) (cb_key x) = Some e" "re_id e = cb_entry x" by blast
  then show ?thesis
    using assms(2,3)
    by (simp add: fire_def timer_callback_def delete_def cancelTimerForKey_def
        cancelTimerForRawEntry_def getRawEntry_def clearTimeout_def WeakMap_get_def
        WeakMap_delete_def Let_def)
qed

lemma wf_fire: "wf_state s \<Longrightarrow> wf_state (fire s h)"
proof (cases "pending s h")
  case None
  assume "wf_state s" with None show ?thesis by (simp add: fire_def)
next
  case (Some x)
  assume w: "wf_state s"
  show ?thesis
  proof (cases "due x \<le> clock s + timer_slack")
    case True
    from fire_is_delete [OF w Some True] wf_delete [OF w] show ?thesis by simp
  next
    case False
    with Some w show ?thesis by (simp add: fire_def)
  qed
qed

lemma wf_tick: "wf_state s \<Longrightarrow> wf_state (tick s d)"
  by (simp add: wf_state_def wf_keys_def wf_ids_def wf_pending_def wf_timers_def wf_deadline_def
      tick_def)

lemma wf_ttl: "wf_state s \<Longrightarrow> wf_state (snd (ttl s k t))"
  by (simp add: ttl_def wf_set_m split: option.splits)

lemma wf_expireAt: "wf_state s \<Longrightarrow> wf_state (snd (expireAt s k x))"
  by (simp add: expireAt_def wf_set_m split: option.splits)

lemma cancelTimerForRawEntry_fields:
  "this_timers (cancelTimerForRawEntry s (Some e)) = (this_timers s)(re_id e := None)"
  "pending (cancelTimerForRawEntry s (Some e)) =
     (case this_timers s (re_id e) of None \<Rightarrow> pending s | Some h \<Rightarrow> (pending s)(h := None))"
  "clock (cancelTimerForRawEntry s eo) = clock s"
  "next_obj (cancelTimerForRawEntry s eo) = next_obj s"
  "next_handle (cancelTimerForRawEntry s eo) = next_handle s"
  by (simp_all add: cancelTimerForRawEntry_def clearTimeout_def WeakMap_get_def
      WeakMap_delete_def Let_def split: option.splits)

lemma fold_cancel_fields:
  "this_map (fold (\<lambda>v s'. cancelTimerForRawEntry s' (Some v)) es s) = this_map s"
  "clock (fold (\<lambda>v s'. cancelTimerForRawEntry s' (Some v)) es s) = clock s"
  "next_obj (fold (\<lambda>v s'. cancelTimerForRawEntry s' (Some v)) es s) = next_obj s"
  "next_handle (fold (\<lambda>v s'. cancelTimerForRawEntry s' (Some v)) es s) = next_handle s"
  by (induction es arbitrary: s; simp add: cancelTimerForRawEntry_fields)+

lemma fold_cancel_timers:
  "this_timers (fold (\<lambda>v s'. cancelTimerForRawEntry s' (Some v)) es s) a =
     (if a \<in> re_id ` set es then None else this_timers s a)"
  by (induction es arbitrary: s) (auto simp: cancelTimerForRawEntry_fields)

lemma fold_cancel_pending:
  "pending (fold (\<lambda>v s'. cancelTimerForRawEntry s' (Some v)) es s) h = Some x \<Longrightarrow>
     pending s h = Some x \<and> (\<forall>e \<in> set es. this_timers s (re_id e) \<noteq> Some h)"
proof (induction es arbitrary: s)
  case Nil
  then show ?case by simp
next
  case (Cons e es)
  let ?s1 = "cancelTimerForRawEntry s (Some e)"
  from Cons.prems have "pending (fold (\<lambda>v s'. cancelTimerForRawEntry s' (Some v)) es ?s1) h = Some x"
    by simp
  from Cons.IH [OF this] have
    p: "pending ?s1 h = Some x" and t: "\<forall>e' \<in> set es. this_timers ?s1 (re_id e') \<noteq> Some h"
    by simp_all
  from p have p0: "pending s h = Some x" and ne: "this_timers s (re_id e) \<noteq> Some h"
    by (auto simp: cancelTimerForRawEntry_fields split: option.splits if_splits)
  have "this_timers s (re_id e') \<noteq> Some h" if "e' \<in> set es" for e'
  proof (cases "re_id e' = re_id e")
    case True
    with ne show ?thesis by simp
  next
    case False
    with t that show ?thesis by (auto simp: cancelTimerForRawEntry_fields)
  qed
  with p0 ne show ?case by simp
qed

lemma clear_fields:
  "this_map (clear s) = []"
  "clock (clear s) = clock s"
  "next_obj (clear s) = next_obj s"
  "next_handle (clear s) = next_handle s"
  by (simp_all add: clear_def cancelTimers_def Let_def fold_cancel_fields)

lemma pending_clear:
  assumes "wf_state s" shows "pending (clear s) = Map.empty"
proof (rule ext)
  fix h
  from assms have w: "wf_pending s" by (simp add: wf_state_def)
  show "pending (clear s) h = None"
  proof (cases "pending (clear s) h")
    case None
    then show ?thesis .
  next
    case (Some x)
    then have "pending (fold (\<lambda>v s'. cancelTimerForRawEntry s' (Some v))
        (map snd (this_map s)) s) h = Some x"
      by (simp add: clear_def cancelTimers_def Let_def)
    from fold_cancel_pending [OF this] have
      p: "pending s h = Some x"
      and n: "\<forall>e \<in> set (map snd (this_map s)). this_timers s (re_id e) \<noteq> Some h"
      by simp_all
    from wf_pendingD [OF w p] obtain e where
      e: "this_timers s (cb_entry x) = Some h"
         "Map_get (this_map s) (cb_key x) = Some e" "re_id e = cb_entry x" by blast
    from Map_get_in [OF e(2)] have "e \<in> set (map snd (this_map s))" by force
    with n e show ?thesis by auto
  qed
qed

lemma this_timers_clear:
  assumes "wf_state s" shows "this_timers (clear s) = Map.empty"
proof (rule ext)
  fix a
  from assms have w: "wf_pending s" "wf_timers s" by (simp_all add: wf_state_def)
  have eq: "this_timers (clear s) a =
      (if a \<in> re_id ` set (map snd (this_map s)) then None else this_timers s a)"
    by (simp add: clear_def cancelTimers_def Let_def fold_cancel_timers)
  show "this_timers (clear s) a = None"
  proof (cases "this_timers s a")
    case None
    with eq show ?thesis by simp
  next
    case (Some h)
    from wf_timersD [OF w(2) Some] obtain x where x: "pending s h = Some x" "cb_entry x = a"
      by blast
    from wf_pendingD [OF w(1) x(1)] obtain e where
      e: "Map_get (this_map s) (cb_key x) = Some e" "re_id e = cb_entry x" by blast
    from Map_get_in [OF e(1)] have "e \<in> set (map snd (this_map s))" by force
    with e x have "a \<in> re_id ` set (map snd (this_map s))" by auto
    with eq show ?thesis by simp
  qed
qed

lemma wf_clear: "wf_state s \<Longrightarrow> wf_state (clear s)"
  by (simp add: wf_state_def [of "clear s"] wf_keys_def wf_ids_def wf_pending_def wf_timers_def
      wf_deadline_def clear_fields pending_clear this_timers_clear)

lemma wf_exec: "wf_state s \<Longrightarrow> wf_state (exec ev s)"
  by (cases ev) (simp_all add: wf_set_m wf_ttl wf_expireAt wf_delete wf_clear wf_tick wf_fire)

lemma wf_fold_exec: "wf_state s \<Longrightarrow> wf_state (fold exec evs s)"
  by (induction evs arbitrary: s) (simp_all add: wf_exec)

lemma wf_run: "wf_state s \<Longrightarrow> wf_state (run evs s)"
  by (simp add: run_def wf_fold_exec)

lemma wf_reachable: "wf_state (run evs (Memorija_new t0))"
  by (simp add: wf_run wf_new)

section \<open>MemorijaEntry normalises a missing deadline\<close>

lemma entry_expireAt_new:
  "entry_expireAt (MemorijaEntry_new v x) = (if x = Undefined then Null else x)"
  by (simp add: entry_expireAt_def MemorijaEntry_new_def)

lemma entry_ttl_new_defined: "entry_ttl now (MemorijaEntry_new v x) \<noteq> Undefined"
  by (cases x) (simp_all add: entry_ttl_def entry_expireAt_new js_sub_def)

text \<open>
  C10. An entry constructed with the deadline omitted stores \<open>null\<close>, exactly as
  one constructed with an explicit \<open>null\<close>: its \<open>expireAt\<close> and \<open>ttl\<close> are \<open>null\<close> and
  \<open>isExpired\<close> is false. No constructed entry has \<open>undefined\<close> as its \<open>expireAt\<close>
  or its \<open>ttl\<close>, whatever the constructor got.
\<close>

theorem entry_undefined_deadline_is_null:
  "MemorijaEntry_new v Undefined = MemorijaEntry_new v Null
   \<and> entry_expireAt (MemorijaEntry_new v Undefined) = Null
   \<and> entry_ttl now (MemorijaEntry_new v Undefined) = Null
   \<and> entry_isExpired now (MemorijaEntry_new v Undefined) = False
   \<and> entry_value (MemorijaEntry_new v Undefined) = v
   \<and> entry_expireAt (MemorijaEntry_new v x) \<noteq> Undefined
   \<and> entry_ttl now (MemorijaEntry_new v x) \<noteq> Undefined"
  using entry_ttl_new_defined [of now v x]
  by (simp add: entry_expireAt_new entry_ttl_def entry_isExpired_def entry_value_def)
    (simp add: MemorijaEntry_new_def)

section \<open>Iteration order\<close>

lemma keys_set_m:
  "keys (set_m s k v t) = (if has s k then keys s else keys s @ [k])"
  by (simp add: keys_def has_def this_map_set_m keys_Map_set)

lemma keys_delete: "keys (snd (delete s k)) = remove1 k (keys s)"
  by (simp add: keys_def delete_fields keys_Map_delete)

lemma has_keys: "has s k \<longleftrightarrow> k \<in> set (keys s)"
  by (simp add: has_def keys_def Map_has_keys)

lemma keys_new: "keys (Memorija_new t0) = []"
  by (simp add: keys_def Memorija_new_def)

lemma forEach_collect:
  "fold (\<lambda>(k, v) a. a @ [(k, re_value v)]) m acc = acc @ map (\<lambda>(k, v). (k, re_value v)) m"
  by (induction m arbitrary: acc) auto

text \<open>
  C7. Iteration follows insertion order. Setting a key that is present keeps its
  place, setting a new key appends it, deleting a key takes it out; \<open>entries\<close>,
  \<open>values\<close>, \<open>forEach\<close>, the iteration protocol and the full variants go through the
  map in the order of \<open>keys\<close>. So for two different keys \<open>a\<close> and \<open>b\<close>, after
  \<open>set(a,1); set(b,2); set(a,3)\<close> the keys are \<open>[a, b]\<close>, and after a further
  \<open>delete(a); set(a,4)\<close> they are \<open>[b, a]\<close>, whatever the times to live.
\<close>

theorem iteration_follows_insertion_order:
  "keys (set_m s k v t) = (if has s k then keys s else keys s @ [k])
   \<and> keys (snd (delete s k)) = remove1 k (keys s)
   \<and> map fst (entries s) = keys s
   \<and> map snd (entries s) = values_m s
   \<and> iterator s = entries s
   \<and> forEach s (\<lambda>v k acc. acc @ [(k, v)]) [] = entries s
   \<and> map fst (fullEntries s) = keys s
   \<and> map snd (fullEntries s) = fullValues s
   \<and> (a \<noteq> b \<longrightarrow>
        keys (run [Set a v1 t1, Set b v2 t2, Set a v3 t3] (Memorija_new t0)) = [a, b]
        \<and> keys (run [Set a v1 t1, Set b v2 t2, Set a v3 t3, Delete a, Set a v4 t4]
                  (Memorija_new t0)) = [b, a])"
proof -
  have 1: "map fst (entries s) = keys s" "map snd (entries s) = values_m s"
    "map fst (fullEntries s) = keys s" "map snd (fullEntries s) = fullValues s"
    by (simp_all add: entries_def keys_def values_m_def fullEntries_def fullValues_def
        case_prod_unfold comp_def)
  have 2: "forEach s (\<lambda>v k acc. acc @ [(k, v)]) [] = entries s"
    by (simp add: forEach_def entries_def forEach_collect)
  have 3: "keys (run [Set a v1 t1, Set b v2 t2, Set a v3 t3] (Memorija_new t0)) = [a, b]"
    "keys (run [Set a v1 t1, Set b v2 t2, Set a v3 t3, Delete a, Set a v4 t4]
       (Memorija_new t0)) = [b, a]" if "a \<noteq> b"
    using that by (simp_all add: run_def keys_set_m keys_delete has_keys keys_new)
  from 1 2 3 show ?thesis
    by (simp add: keys_set_m keys_delete iterator_def)
qed

theorem iteration_follows_insertion_order_witness:
  "(1::nat) \<noteq> 2
   \<and> keys (run [Set (1::nat) (Val (1::nat)) Undefined, Set 2 (Val 2) Undefined,
        Set 1 (Val 3) (Num 5)] (Memorija_new 0)) = [1, 2]
   \<and> keys (run [Set (1::nat) (Val (1::nat)) Undefined, Set 2 (Val 2) Undefined,
        Set 1 (Val 3) (Num 5), Delete 1, Set 1 (Val 4) Undefined] (Memorija_new 0)) = [2, 1]
   \<and> entries (run [Set (1::nat) (Val (1::nat)) Undefined, Set 2 (Val 2) Undefined,
        Set 1 (Val 3) (Num 5)] (Memorija_new 0)) = [(1, Val 3), (2, Val 2)]"
proof -
  have ne: "(1::nat) \<noteq> 2" by simp
  have e: "entries (run [Set (1::nat) (Val (1::nat)) Undefined, Set 2 (Val 2) Undefined,
        Set 1 (Val 3) (Num 5)] (Memorija_new 0)) = [(1, Val 3), (2, Val 2)]"
    by (simp add: entries_def run_def this_map_set_m new_entry_def Memorija_new_def)
  from ne e
    iteration_follows_insertion_order [where a = "1::nat" and b = "2::nat"
      and ?v1.0 = "Val (1::nat)" and ?t1.0 = Undefined and ?v2.0 = "Val 2" and ?t2.0 = Undefined
      and ?v3.0 = "Val 3" and ?t3.0 = "Num 5" and ?v4.0 = "Val 4" and ?t4.0 = Undefined
      and ?t0.0 = 0 and s = "Memorija_new 0 :: (nat, nat) memorija" and k = 1
      and v = "Val 1" and t = Undefined]
  show ?thesis by simp
qed

section \<open>Timers and deadlines\<close>















section \<open>A timeout removes the record it was installed for\<close>

lemma getRawEntry_delete:
  "wf_keys s \<Longrightarrow>
     getRawEntry (snd (delete s k0)) k = (if k = k0 then None else getRawEntry s k)"
  by (simp add: getRawEntry_def delete_fields Map_get_delete wf_keys_def)

lemma pending_record:
  assumes "wf_state s" "pending s h = Some x"
  shows "\<exists>e. getRawEntry s (cb_key x) = Some e \<and> re_id e = cb_entry x
             \<and> re_expireAt e \<noteq> Undefined \<and> live_timer s e = Some x"
proof -
  from assms have w: "wf_pending s" by (simp add: wf_state_def)
  from wf_pendingD [OF w assms(2)] assms(2) show ?thesis
    by (auto simp: getRawEntry_def live_timer_def)
qed

lemma getRawEntry_fire:
  assumes "wf_state s" "pending s h = Some x"
  shows "getRawEntry (fire s h) k =
     (if k = cb_key x \<and> due x \<le> clock s + timer_slack then None else getRawEntry s k)"
proof (cases "due x \<le> clock s + timer_slack")
  case True
  from assms have "wf_keys s" by (simp add: wf_state_def)
  with fire_is_delete [OF assms True] True show ?thesis
    by (simp add: getRawEntry_delete)
next
  case False
  with assms(2) show ?thesis by (simp add: fire_def)
qed

text \<open>
  C2. In a reachable state, a handle that is not pending (it was cleared, or has run)
  does nothing when the scheduler is asked to run it. For a pending timeout, the record
  stored under its key is the very record it was installed for, and that record's live
  timeout is this one; so whenever running it changes the record stored under a key,
  that key is the timeout's key, the record is the timeout's record, and the key is
  gone afterwards. The callback itself does not compare identities: \<open>set\<close>, \<open>delete\<close>
  and \<open>clear\<close> clear the timeout of every record they replace or remove, so no timeout
  of a replaced or deleted record is ever pending.
\<close>

theorem fire_removes_only_installed_record:
  assumes "s = run evs (Memorija_new t0)"
  shows "(pending s h = None \<longrightarrow> fire s h = s)
     \<and> (\<forall>x. pending s h = Some x \<longrightarrow>
          (\<exists>e. getRawEntry s (cb_key x) = Some e \<and> re_id e = cb_entry x
               \<and> live_timer s e = Some x)
          \<and> (\<forall>k e. getRawEntry s k = Some e \<and> getRawEntry (fire s h) k \<noteq> Some e \<longrightarrow>
                k = cb_key x \<and> re_id e = cb_entry x \<and> getRawEntry (fire s h) k = None))"
proof -
  from assms have w: "wf_state s" by (simp add: wf_reachable)
  have 1: "fire s h = s" if "pending s h = None"
    using that by (simp add: fire_def)
  have 2: "\<exists>e. getRawEntry s (cb_key x) = Some e \<and> re_id e = cb_entry x
              \<and> live_timer s e = Some x" if "pending s h = Some x" for x
    using pending_record [OF w that] by blast
  have 3: "k = cb_key x \<and> re_id e = cb_entry x \<and> getRawEntry (fire s h) k = None"
    if p: "pending s h = Some x"
      and c: "getRawEntry s k = Some e \<and> getRawEntry (fire s h) k \<noteq> Some e" for x k e
  proof -
    from c have k: "k = cb_key x" and n: "getRawEntry (fire s h) k = None"
      by (auto simp: getRawEntry_fire [OF w p] split: if_splits)
    from pending_record [OF w p] c k have "re_id e = cb_entry x" by auto
    with k n show ?thesis by simp
  qed
  from 1 2 3 show ?thesis by blast
qed

theorem fire_removes_only_installed_record_witness:
  "pending (run [Set (1::nat) (Val (10::nat)) (Num 50), Set 1 (Val 11) (Num 20), Tick 60]
      (Memorija_new 0)) 1 = Some \<lparr>due = 20, cb_key = 1, cb_entry = 1\<rparr>
   \<and> getRawEntry (run [Set (1::nat) (Val (10::nat)) (Num 50), Set 1 (Val 11) (Num 20), Tick 60]
      (Memorija_new 0)) 1 = Some \<lparr>re_id = 1, re_expireAt = Num 20, re_value = Val 11\<rparr>
   \<and> getRawEntry (fire (run [Set (1::nat) (Val (10::nat)) (Num 50), Set 1 (Val 11) (Num 20),
      Tick 60] (Memorija_new 0)) 1) 1 = None
   \<and> pending (run [Set (1::nat) (Val (10::nat)) (Num 50), Set 1 (Val 11) (Num 20), Tick 60]
      (Memorija_new 0)) 0 = None
   \<and> fire (run [Set (1::nat) (Val (10::nat)) (Num 50), Set 1 (Val 11) (Num 20), Tick 60]
      (Memorija_new 0)) 0
     = run [Set (1::nat) (Val (10::nat)) (Num 50), Set 1 (Val 11) (Num 20), Tick 60]
      (Memorija_new 0)"
proof -
  let ?s = "run [Set (1::nat) (Val (10::nat)) (Num 50), Set 1 (Val 11) (Num 20), Tick 60]
      (Memorija_new 0)"
  have s: "?s = \<lparr>this_map = [(1, \<lparr>re_id = 1, re_expireAt = Num 20, re_value = Val 11\<rparr>)],
        this_timers = [1 \<mapsto> 1], clock = 60,
        pending = [1 \<mapsto> \<lparr>due = 20, cb_key = 1, cb_entry = 1\<rparr>],
        next_obj = 2, next_handle = 2\<rparr>"
    by (simp add: eval_defs fun_eq_iff)
  have p1: "pending ?s 1 = Some \<lparr>due = 20, cb_key = 1, cb_entry = 1\<rparr>"
    and p0: "pending ?s 0 = None"
    and g: "getRawEntry ?s 1 = Some \<lparr>re_id = 1, re_expireAt = Num 20, re_value = Val 11\<rparr>"
    and f: "getRawEntry (fire ?s 1) 1 = None"
    unfolding s by (simp_all add: getRawEntry_def fire_def timer_callback_def timer_slack_def)
  from fire_removes_only_installed_record [OF refl, where ?t0.0 = 0 and h = 0
      and evs = "[Set (1::nat) (Val (10::nat)) (Num 50), Set 1 (Val 11) (Num 20), Tick 60]",
      THEN conjunct1] p0
  have "fire ?s 0 = ?s" by simp
  with p1 p0 g f show ?thesis by simp
qed

section \<open>Setting a key again cancels its timer\<close>

lemma clock_delete [simp]: "clock (snd (delete s k)) = clock s"
  by (simp add: delete_fields)

lemma clock_fire [simp]: "clock (fire s h) = clock s"
  by (simp add: fire_def timer_callback_def Let_def split: option.splits)

lemma clock_exec: "clock s \<le> clock (exec ev s)"
  by (cases ev) (simp_all add: ttl_def expireAt_def clear_fields tick_def split: option.splits)

lemma clock_run: "clock s \<le> clock (run evs s)"
proof (induction evs arbitrary: s)
  case Nil
  show ?case by simp
next
  case (Cons ev evs)
  from clock_exec [of s ev] Cons [of "exec ev s"] show ?case by simp
qed

lemma pending_host_step:
  "host_event ev \<Longrightarrow> pending (exec ev s) h = Some x \<Longrightarrow> pending s h = Some x"
  by (cases ev)
    (auto simp: tick_def fire_def timer_callback_def Let_def split: option.splits if_splits)

lemma host_step_keeps_record:
  assumes w: "wf_state s" and g: "getRawEntry s k = Some e" and h: "host_event ev"
    and d: "\<forall>h x. pending s h = Some x \<and> cb_key x = k \<longrightarrow> clock s + timer_slack < due x"
  shows "getRawEntry (exec ev s) k = Some e"
proof (cases ev)
  case (Tick n)
  with g show ?thesis by (simp add: tick_def getRawEntry_def)
next
  case (Fire hd)
  show ?thesis
  proof (cases "pending s hd")
    case None
    with g Fire show ?thesis by (simp add: fire_def)
  next
    case (Some x)
    from d Some have "\<not> (k = cb_key x \<and> due x \<le> clock s + timer_slack)" by fastforce
    with g Fire show ?thesis by (simp add: getRawEntry_fire [OF w Some])
  qed
qed (use h in simp_all)

lemma host_run_keeps_record:
  assumes "wf_state s" "getRawEntry s k = Some e" "list_all host_event hs"
    "\<forall>h x. pending s h = Some x \<and> cb_key x = k \<longrightarrow> clock (run hs s) + timer_slack < due x"
  shows "getRawEntry (run hs s) k = Some e"
  using assms
proof (induction hs arbitrary: s)
  case Nil
  then show ?case by simp
next
  case (Cons ev hs)
  let ?s1 = "exec ev s"
  from Cons.prems(3) have h: "host_event ev" "list_all host_event hs" by simp_all
  have c: "clock s \<le> clock (run hs ?s1)"
    using clock_exec [of s ev] clock_run [of ?s1 hs] by simp
  from Cons.prems(4) have p4:
    "\<forall>h x. pending s h = Some x \<and> cb_key x = k \<longrightarrow>
       clock (run hs ?s1) + timer_slack < due x"
    by simp
  have d0: "\<forall>h x. pending s h = Some x \<and> cb_key x = k \<longrightarrow> clock s + timer_slack < due x"
  proof (intro allI impI)
    fix h x assume "pending s h = Some x \<and> cb_key x = k"
    with p4 have "clock (run hs ?s1) + timer_slack < due x" by blast
    with c show "clock s + timer_slack < due x" by simp
  qed
  from host_step_keeps_record [OF Cons.prems(1,2) h(1) d0]
  have g1: "getRawEntry ?s1 k = Some e" .
  have d1: "\<forall>h x. pending ?s1 h = Some x \<and> cb_key x = k \<longrightarrow>
      clock (run hs ?s1) + timer_slack < due x"
  proof (intro allI impI)
    fix h' x assume a: "pending ?s1 h' = Some x \<and> cb_key x = k"
    with pending_host_step [OF h(1), of s h' x] have "pending s h' = Some x" by simp
    with a p4 show "clock (run hs ?s1) + timer_slack < due x" by blast
  qed
  from Cons.IH [OF wf_exec [OF Cons.prems(1)] g1 h(2) d1] show ?case by simp
qed

lemma pending_key_after_set:
  assumes w: "wf_state s" and p: "pending (set_m s k v t) h = Some x" and k: "cb_key x = k"
  shows "t \<noteq> Undefined \<and> x = new_timeout s k t"
proof -
  let ?s' = "set_m s k v t"
  from wf_set_m [OF w] have "wf_pending ?s'" by (simp add: wf_state_def)
  from wf_pendingD [OF this p] k obtain e where
    e: "this_timers ?s' (cb_entry x) = Some h" "Map_get (this_map ?s') k = Some e"
       "re_id e = cb_entry x" "re_expireAt e \<noteq> Undefined" by auto
  from e(2) have n: "e = new_entry s v t" by (simp add: this_map_set_m Map_get_set)
  with e(4) have t: "t \<noteq> Undefined" by (auto simp: new_entry_def)
  from n e(3) have "cb_entry x = next_obj s" by (simp add: new_entry_def)
  with e(1) t have "h = next_handle s" by (simp add: this_timers_set_m)
  with p t have "x = new_timeout s k t" by (simp add: pending_set_m)
  with t show ?thesis by simp
qed

lemma getRawEntry_set_m:
  "getRawEntry (set_m s k v t) k' =
     (if k' = k then Some (new_entry s v t) else getRawEntry s k')"
  by (simp add: getRawEntry_def this_map_set_m Map_get_set)

lemma has_getRawEntry: "has s k \<longleftrightarrow> getRawEntry s k \<noteq> None"
  by (simp add: has_def getRawEntry_def Map_has_get)

lemma old_timer_cleared_by_set:
  assumes "t1 \<noteq> Undefined"
  shows "pending (set_m (set_m s k v t1) k v' t2) (next_handle s) = None"
proof -
  let ?s' = "set_m s k v t1"
  from assms have g: "Map_get (this_map ?s') k = Some (new_entry s v t1)"
    and t: "this_timers ?s' (re_id (new_entry s v t1)) = Some (next_handle s)"
    and n: "next_handle ?s' = Suc (next_handle s)"
    by (simp_all add: this_map_set_m Map_get_set this_timers_set_m new_entry_def
        next_handle_set_m)
  from g t have "pending (cancelTimerForKey ?s' k) (next_handle s) = None"
    by (simp add: pending_cancelTimerForKey)
  with n show ?thesis by (simp add: pending_set_m)
qed

lemma old_timer_cleared_by_delete:
  assumes "getRawEntry s k = Some e" "this_timers s (re_id e) = Some h"
  shows "pending (set_m (snd (delete s k)) k v Undefined) h = None"
proof -
  from assms have "pending (snd (delete s k)) h = None"
    by (simp add: delete_fields pending_cancelTimerForKey getRawEntry_def)
  then have "pending (cancelTimerForKey (snd (delete s k)) k) h = None"
    using pending_cancel_old [of "snd (delete s k)" k h]
    by (cases "pending (cancelTimerForKey (snd (delete s k)) k) h") auto
  then show ?thesis by (simp add: pending_set_m)
qed

text \<open>
  C3. Start in a reachable state and let only the host act afterwards (time passes,
  timeouts run). After \<open>set(k, v, t1)\<close> immediately followed by \<open>set(k, v', n)\<close> the key
  \<open>k\<close> is present with value \<open>v'\<close> as long as the clock is more than one millisecond
  (the slack of the timer queue) below the time at which the host has the second
  timeout due; for a second time to live \<open>n\<close> within the longest delay of the host,
  \<open>2^31 - 1\<close>, that time is the second deadline, whatever the first time to live was
  (for example 50 and then 5000). The
  timeout of the first \<open>set\<close> is off the queue. After \<open>delete(k)\<close>
  followed by \<open>set(k, v)\<close> without a time to live, \<open>k\<close> is present with value \<open>v\<close>
  forever, its \<open>ttl\<close> is \<open>null\<close>, and the timeout the deleted record had is off the queue.
\<close>

theorem reset_cancels_previous_timer:
  assumes "s = run evs (Memorija_new t0)" and "list_all host_event hs"
    and "s1 = set_m (set_m s k v t1) k v' (Num n)"
    and "s2 = set_m (snd (delete s k)) k v Undefined"
  shows "(clock (run hs s1) + timer_slack < clock s + timer_delay (Num n) \<longrightarrow>
            has (run hs s1) k \<and> get (run hs s1) k = v')
     \<and> (n \<le> 2147483647 \<and> clock (run hs s1) + timer_slack < clock s + n \<longrightarrow>
            has (run hs s1) k \<and> get (run hs s1) k = v')
     \<and> (t1 \<noteq> Undefined \<longrightarrow> pending s1 (next_handle s) = None)
     \<and> has (run hs s2) k \<and> get (run hs s2) k = v
     \<and> fst (ttl (run hs s2) k Undefined) = Null
     \<and> (\<forall>e h. getRawEntry s k = Some e \<and> this_timers s (re_id e) = Some h \<longrightarrow>
           pending s2 h = None)"
proof -
  from assms(1) have w: "wf_state s" by (simp add: wf_reachable)
  let ?s' = "set_m s k v t1"
  let ?d = "snd (delete s k)"
  have w': "wf_state ?s'" and wd: "wf_state ?d"
    using w by (simp_all add: wf_set_m wf_delete)
  have w1: "wf_state s1" and w2: "wf_state s2"
    using w' wd by (simp_all add: assms(3,4) wf_set_m)
  let ?e1 = "new_entry ?s' v' (Num n)"
  let ?e2 = "new_entry ?d v Undefined"
  have g1: "getRawEntry s1 k = Some ?e1" and g2: "getRawEntry s2 k = Some ?e2"
    by (simp_all add: assms(3,4) getRawEntry_set_m)
  have x1: "re_value ?e1 = v'" and x2: "re_expireAt ?e2 = Undefined" "re_value ?e2 = v"
    by (simp_all add: new_entry_def)
  have t1: "due x = clock s + timer_delay (Num n)"
    if "pending s1 h = Some x" "cb_key x = k" for h x
    using pending_key_after_set [OF w' that(1) [unfolded assms(3)] that(2)]
    by (simp add: new_timeout_def)
  have t2: "False" if "pending s2 h = Some x" "cb_key x = k" for h x
    using pending_key_after_set [OF wd that(1) [unfolded assms(4)] that(2)] by simp
  have a: "getRawEntry (run hs s1) k = Some ?e1"
    if c: "clock (run hs s1) + timer_slack < clock s + timer_delay (Num n)"
  proof (rule host_run_keeps_record [OF w1 g1 assms(2)], intro allI impI)
    fix h x assume "pending s1 h = Some x \<and> cb_key x = k"
    with t1 [of h x] c show "clock (run hs s1) + timer_slack < due x" by simp
  qed
  have b: "getRawEntry (run hs s2) k = Some ?e2"
  proof (rule host_run_keeps_record [OF w2 g2 assms(2)], intro allI impI)
    fix h x assume "pending s2 h = Some x \<and> cb_key x = k"
    with t2 [of h x] show "clock (run hs s2) + timer_slack < due x" by simp
  qed
  have le: "n \<le> timer_delay (Num n)" if "n \<le> 2147483647"
    using that by (simp add: timer_delay_def)
  from a x1 have 1: "clock (run hs s1) + timer_slack < clock s + timer_delay (Num n) \<longrightarrow>
      has (run hs s1) k \<and> get (run hs s1) k = v'"
    by (simp add: has_getRawEntry get_def)
  have 2: "n \<le> 2147483647 \<and> clock (run hs s1) + timer_slack < clock s + n \<longrightarrow>
      has (run hs s1) k \<and> get (run hs s1) k = v'"
  proof
    assume h: "n \<le> 2147483647 \<and> clock (run hs s1) + timer_slack < clock s + n"
    with le have "clock (run hs s1) + timer_slack < clock s + timer_delay (Num n)"
      by fastforce
    with 1 show "has (run hs s1) k \<and> get (run hs s1) k = v'" by simp
  qed
  from b x2 have 3: "has (run hs s2) k \<and> get (run hs s2) k = v
      \<and> fst (ttl (run hs s2) k Undefined) = Null"
    by (simp add: has_getRawEntry get_def ttl_def getEntry_def entry_ttl_def
        entry_expireAt_def MemorijaEntry_new_def)
  have 4: "t1 \<noteq> Undefined \<longrightarrow> pending s1 (next_handle s) = None"
    by (simp add: assms(3) old_timer_cleared_by_set)
  have 5: "\<forall>e h. getRawEntry s k = Some e \<and> this_timers s (re_id e) = Some h \<longrightarrow>
      pending s2 h = None"
    by (simp add: assms(4) old_timer_cleared_by_delete)
  from 1 2 3 4 5 show ?thesis by simp
qed

theorem reset_cancels_previous_timer_witness:
  "list_all host_event [Tick 60, Fire 0, Fire 1, Tick 4000 :: (nat, nat) event]
   \<and> (5000::int) \<le> 2147483647
   \<and> clock (run [Tick 60, Fire 0, Fire 1, Tick 4000]
        (set_m (set_m (Memorija_new 0) (1::nat) (Val (10::nat)) (Num 50)) 1 (Val 11) (Num 5000)))
      = 4060
   \<and> has (run [Tick 60, Fire 0, Fire 1, Tick 4000]
        (set_m (set_m (Memorija_new 0) (1::nat) (Val (10::nat)) (Num 50)) 1 (Val 11) (Num 5000))) 1
   \<and> get (run [Tick 60, Fire 0, Fire 1, Tick 4000]
        (set_m (set_m (Memorija_new 0) (1::nat) (Val (10::nat)) (Num 50)) 1 (Val 11) (Num 5000))) 1
      = Val 11
   \<and> has (run [Tick 60, Fire 0, Fire 1, Tick 100000]
        (set_m (snd (delete (run [Set (1::nat) (Val (10::nat)) (Num 50)] (Memorija_new 0)) 1))
           1 (Val 12) Undefined)) 1
   \<and> get (run [Tick 60, Fire 0, Fire 1, Tick 100000]
        (set_m (snd (delete (run [Set (1::nat) (Val (10::nat)) (Num 50)] (Memorija_new 0)) 1))
           1 (Val 12) Undefined)) 1 = Val 12
   \<and> pending (set_m (set_m (Memorija_new 0) (1::nat) (Val (10::nat)) (Num 50)) 1 (Val 11)
        (Num 5000)) 0 = None
   \<and> pending (run [Set (1::nat) (Val (10::nat)) (Num 50)] (Memorija_new 0)) 0
       = Some \<lparr>due = 50, cb_key = 1, cb_entry = 0\<rparr>
   \<and> pending (set_m (snd (delete (run [Set (1::nat) (Val (10::nat)) (Num 50)]
        (Memorija_new 0)) 1)) 1 (Val (12::nat)) Undefined) 0 = None"
proof -
  let ?hs = "[Tick 60, Fire 0, Fire 1, Tick 4000 :: (nat, nat) event]"
  let ?hs' = "[Tick 60, Fire 0, Fire 1, Tick 100000 :: (nat, nat) event]"
  have h: "list_all host_event ?hs" "list_all host_event ?hs'" by simp_all
  have c: "clock (run ?hs
        (set_m (set_m (Memorija_new 0) (1::nat) (Val (10::nat)) (Num 50)) 1 (Val 11) (Num 5000)))
      = 4060"
    by (simp add: tick_def Memorija_new_def)
  have i: "(Memorija_new 0 :: (nat, nat) memorija) = run [] (Memorija_new 0)" by simp
  from reset_cancels_previous_timer [OF i h(1) refl refl, where k = 1 and v = "Val 10"
      and ?t1.0 = "Num 50" and v' = "Val 11" and n = 5000] c
  have a: "has (run ?hs
        (set_m (set_m (Memorija_new 0) (1::nat) (Val (10::nat)) (Num 50)) 1 (Val 11) (Num 5000))) 1
     \<and> get (run ?hs
        (set_m (set_m (Memorija_new 0) (1::nat) (Val (10::nat)) (Num 50)) 1 (Val 11) (Num 5000))) 1
      = Val 11
     \<and> pending (set_m (set_m (Memorija_new 0) (1::nat) (Val (10::nat)) (Num 50)) 1 (Val 11)
        (Num 5000)) 0 = None"
    by (simp add: Memorija_new_def timer_slack_def)
  let ?s = "run [Set (1::nat) (Val (10::nat)) (Num 50)] (Memorija_new 0)"
  have g: "getRawEntry ?s 1 = Some \<lparr>re_id = 0, re_expireAt = Num 50, re_value = Val 10\<rparr>"
    and t: "this_timers ?s 0 = Some 0"
    and q: "pending ?s 0 = Some \<lparr>due = 50, cb_key = 1, cb_entry = 0\<rparr>"
    by (simp_all add: eval_defs)
  from reset_cancels_previous_timer [OF refl h(2) refl refl,
      where evs = "[Set (1::nat) (Val (10::nat)) (Num 50)]" and ?t0.0 = 0 and k = 1
        and v = "Val 12" and ?t1.0 = Undefined and v' = "Val 12" and n = 0]
  have b: "has (run ?hs'
        (set_m (snd (delete (run [Set (1::nat) (Val (10::nat)) (Num 50)] (Memorija_new 0)) 1))
           1 (Val 12) Undefined)) 1
   \<and> get (run ?hs'
        (set_m (snd (delete (run [Set (1::nat) (Val (10::nat)) (Num 50)] (Memorija_new 0)) 1))
           1 (Val 12) Undefined)) 1 = Val 12
   \<and> pending (set_m (snd (delete ?s 1)) 1 (Val (12::nat)) Undefined) 0 = None"
    using g t by simp
  have "(5000::int) \<le> 2147483647" by simp
  with h(1) c a b q show ?thesis by blast
qed

section \<open>Reading never looks at the deadline\<close>




section \<open>The absent result of the readers\<close>

text \<open>
  C4 as stated fails for \<open>get\<close>: a key stored with the value \<open>undefined\<close> is present,
  yet \<open>get\<close> returns for it what it returns for a key that was never set.
\<close>

theorem get_absent_equals_stored_undefined:
  "has (set_m (Memorija_new 0) (1::nat) (VUndefined :: nat jsval) Undefined) 1
   \<and> \<not> has (Memorija_new 0 :: (nat, nat) memorija) 1
   \<and> get (set_m (Memorija_new 0) (1::nat) (VUndefined :: nat jsval) Undefined) 1
       = get (Memorija_new 0 :: (nat, nat) memorija) 1"
  by (simp add: eval_defs)

text \<open>
  The getter mode of \<open>expireAt\<close> returns the first component of the raw entry as it
  is, which is \<open>undefined\<close> for a key without a deadline: the result its documentation
  reserves for a missing key (it promises \<open>null\<close> here).
\<close>

lemma expireAt_getter_without_deadline:
  "has (set_m (Memorija_new 0) (1::nat) (Val (10::nat)) Undefined) 1
   \<and> fst (expireAt (set_m (Memorija_new 0) (1::nat) (Val (10::nat)) Undefined) 1 Undefined)
       = Undefined
   \<and> fst (expireAt (Memorija_new 0 :: (nat, nat) memorija) 1 Undefined) = Undefined"
  by (simp add: eval_defs)

text \<open>
  C4, amended. \<open>getEntry\<close> returns its absent result exactly for a missing key, and so
  does the getter mode of \<open>ttl\<close>: for a present key it returns a number or, when the
  key never expires, \<open>null\<close>. \<open>get\<close> returns \<open>undefined\<close> exactly when the key is missing
  or the stored value is itself \<open>undefined\<close>; for every other present key its result
  differs from the absent one.
\<close>

theorem absent_result_distinguishable:
  "(getEntry s k = None \<longleftrightarrow> \<not> has s k)
   \<and> (fst (ttl s k Undefined) = Undefined \<longleftrightarrow> \<not> has s k)
   \<and> (get s k = VUndefined \<longleftrightarrow>
        \<not> has s k \<or> (\<exists>e. getRawEntry s k = Some e \<and> re_value e = VUndefined))
   \<and> (\<forall>e. getRawEntry s k = Some e \<longrightarrow>
        has s k \<and> get s k = re_value e
        \<and> getEntry s k = Some (MemorijaEntry_new (re_value e) (re_expireAt e))
        \<and> (re_expireAt e = Undefined \<longrightarrow> fst (ttl s k Undefined) = Null))"
proof (cases "getRawEntry s k")
  case None
  then show ?thesis
    by (simp add: has_getRawEntry getEntry_def ttl_def get_def)
next
  case (Some e)
  have "entry_ttl (Date_now s) (MemorijaEntry_new (re_value e) (re_expireAt e)) \<noteq> Undefined"
    by (rule entry_ttl_new_defined)
  with Some show ?thesis
    by (simp add: has_getRawEntry getEntry_def ttl_def get_def entry_ttl_def
        entry_expireAt_new)
qed

theorem absent_result_distinguishable_witness:
  "getRawEntry (run [Set (1::nat) (VUndefined :: nat jsval) Undefined] (Memorija_new 0)) 1
     = Some \<lparr>re_id = 0, re_expireAt = Undefined, re_value = VUndefined\<rparr>
   \<and> has (run [Set (1::nat) (VUndefined :: nat jsval) Undefined] (Memorija_new 0)) 1
   \<and> get (run [Set (1::nat) (VUndefined :: nat jsval) Undefined] (Memorija_new 0)) 1 = VUndefined
   \<and> getEntry (run [Set (1::nat) (VUndefined :: nat jsval) Undefined] (Memorija_new 0)) 1
       = Some (MemorijaEntry_new VUndefined Undefined)
   \<and> fst (ttl (run [Set (1::nat) (VUndefined :: nat jsval) Undefined] (Memorija_new 0)) 1
       Undefined) = Null
   \<and> \<not> has (run [Set (1::nat) (VUndefined :: nat jsval) Undefined] (Memorija_new 0)) 2
   \<and> getEntry (run [Set (1::nat) (VUndefined :: nat jsval) Undefined] (Memorija_new 0)) 2 = None
   \<and> fst (ttl (run [Set (1::nat) (VUndefined :: nat jsval) Undefined] (Memorija_new 0)) 2
       Undefined) = Undefined"
proof -
  let ?s = "run [Set (1::nat) (VUndefined :: nat jsval) Undefined] (Memorija_new 0)"
  have g: "getRawEntry ?s 1 = Some \<lparr>re_id = 0, re_expireAt = Undefined, re_value = VUndefined\<rparr>"
    and n: "\<not> has ?s 2"
    by (simp_all add: getRawEntry_set_m new_entry_def Memorija_new_def has_def this_map_set_m)
  from absent_result_distinguishable [of ?s 1] absent_result_distinguishable [of ?s 2] g n
  show ?thesis by simp
qed

section \<open>expireAt and ttl as setters\<close>

lemma live_timer_set_m:
  "t \<noteq> Undefined \<Longrightarrow>
     live_timer (set_m s k v t) (new_entry s v t) = Some (new_timeout s k t)"
  by (simp add: live_timer_def this_timers_set_m pending_set_m new_entry_def)

lemma js_sub_exact: "exact (i - now) \<Longrightarrow> js_sub (Num i) now = Num (i - now)"
  by (simp add: js_sub_def exact_def to_double_exact)

text \<open>
  Beyond the doubles that are exact the deadline stored is not the instant given:
  \<open>expireAt(1, 2^53 + 2)\<close> at clock \<open>1\<close> stores \<open>2^53\<close>, and the host cuts the delay.
\<close>

lemma expireAt_beyond_exact:
  "getRawEntry (run [Set (1::nat) (Val (10::nat)) Undefined, ExpireAt 1 (Num 9007199254740994)]
      (Memorija_new 1)) 1
     = Some \<lparr>re_id = 1, re_expireAt = Num 9007199254740992, re_value = Val 10\<rparr>
   \<and> pending (run [Set (1::nat) (Val (10::nat)) Undefined, ExpireAt 1 (Num 9007199254740994)]
      (Memorija_new 1)) 0 = Some \<lparr>due = 2, cb_key = 1, cb_entry = 1\<rparr>"
  by (simp add: Memorija_new_def set_m_def delete_def expireAt_def createTimer_def
      setTimeout_def clearTimeout_def cancelTimerForKey_def cancelTimerForRawEntry_def
      getRawEntry_def WeakMap_get_def WeakMap_delete_def Date_now_def Let_def js_add_def
      js_sub_def timer_delay_def to_double_tie_down)

text \<open>
  C8. For a present key \<open>k\<close> and an instant \<open>i\<close>, \<open>expireAt(k, i)\<close> and
  \<open>ttl(k, i - now)\<close> called at the same clock time lead to the same state, so to the same
  stored value, the same deadline and the same timeout; each returns its own argument,
  and \<open>k\<close> keeps the value it had. The difference \<open>i - now\<close> is the one JavaScript
  computes, a double; it is the exact difference when that is its own double. When the
  difference is a time to live in the range of the host, the deadline stored is \<open>i\<close> and
  the record's live timeout is due at \<open>i\<close>.
\<close>

theorem expireAt_equals_ttl_of_difference:
  assumes "getRawEntry s k = Some e"
    and "s1 = snd (expireAt s k (Num i))"
    and "s2 = snd (ttl s k (js_sub (Num i) (Date_now s)))"
  shows "s1 = s2
     \<and> fst (expireAt s k (Num i)) = Num i
     \<and> fst (ttl s k (js_sub (Num i) (Date_now s))) = js_sub (Num i) (Date_now s)
     \<and> get s1 k = re_value e
     \<and> (exact (i - Date_now s) \<longrightarrow> js_sub (Num i) (Date_now s) = Num (i - Date_now s))
     \<and> (ttl_in_range (Date_now s) (Num (i - Date_now s)) \<longrightarrow>
          fst (expireAt s1 k Undefined) = Num i
          \<and> (\<exists>r. getRawEntry s1 k = Some r \<and> re_expireAt r = Num i
                 \<and> live_timer s1 r = Some \<lparr>due = i, cb_key = k, cb_entry = re_id r\<rparr>))"
proof -
  let ?t = "js_sub (Num i) (Date_now s)"
  have d: "?t \<noteq> Undefined" "?t \<noteq> Null" by (simp_all add: js_sub_def)
  from assms d have 1: "s1 = set_m s k (re_value e) ?t"
    and 2: "s2 = set_m s k (re_value e) ?t"
    by (simp_all add: expireAt_def ttl_def getEntry_def entry_value_def MemorijaEntry_new_def)
  from assms(1) d have f: "fst (expireAt s k (Num i)) = Num i"
    "fst (ttl s k ?t) = ?t"
    by (simp_all add: expireAt_def ttl_def getEntry_def)
  have r: "getRawEntry s1 k = Some (new_entry s (re_value e) ?t)"
    by (simp add: 1 getRawEntry_set_m)
  then have g: "get s1 k = re_value e" by (simp add: get_def new_entry_def)
  have x: "exact (i - Date_now s) \<longrightarrow> ?t = Num (i - Date_now s)"
    by (simp add: js_sub_exact)
  have y: "fst (expireAt s1 k Undefined) = Num i
      \<and> (\<exists>r. getRawEntry s1 k = Some r \<and> re_expireAt r = Num i
             \<and> live_timer s1 r = Some \<lparr>due = i, cb_key = k, cb_entry = re_id r\<rparr>)"
    if q: "ttl_in_range (Date_now s) (Num (i - Date_now s))"
  proof -
    let ?n = "Num (i - clock s)"
    from q have b: "0 \<le> i - clock s" "i - clock s \<le> 2147483647" "exact i"
      by (simp_all add: ttl_in_range_def Date_now_def)
    then have "exact (i - clock s)" by (simp add: exact_def)
    then have t: "?t = ?n" by (simp add: js_sub_exact Date_now_def)
    from b have e: "re_expireAt (new_entry s (re_value e) ?n) = Num i"
      by (simp add: new_entry_def js_add_def exact_def to_double_exact)
    from b have "new_timeout s k ?n
        = \<lparr>due = i, cb_key = k, cb_entry = re_id (new_entry s (re_value e) ?n)\<rparr>"
      by (simp add: new_timeout_def new_entry_def timer_delay_def)
    then have l: "live_timer s1 (new_entry s (re_value e) ?n)
        = Some \<lparr>due = i, cb_key = k, cb_entry = re_id (new_entry s (re_value e) ?n)\<rparr>"
      by (simp add: 1 t live_timer_set_m)
    from r t e have "fst (expireAt s1 k Undefined) = Num i" by (simp add: expireAt_def)
    with r t e l show ?thesis by simp
  qed
  from 1 2 f g x y show ?thesis by simp
qed

theorem expireAt_equals_ttl_of_difference_witness:
  "getRawEntry (run [Set (1::nat) (Val (10::nat)) Undefined] (Memorija_new 100)) 1
     = Some \<lparr>re_id = 0, re_expireAt = Undefined, re_value = Val 10\<rparr>
   \<and> Date_now (run [Set (1::nat) (Val (10::nat)) Undefined] (Memorija_new 100)) = 100
   \<and> js_sub (Num 350) 100 = Num 250
   \<and> ttl_in_range 100 (Num 250)
   \<and> snd (expireAt (run [Set (1::nat) (Val (10::nat)) Undefined] (Memorija_new 100)) 1 (Num 350))
     = snd (ttl (run [Set (1::nat) (Val (10::nat)) Undefined] (Memorija_new 100)) 1 (Num 250))
   \<and> get (snd (expireAt (run [Set (1::nat) (Val (10::nat)) Undefined] (Memorija_new 100)) 1
        (Num 350))) 1 = Val 10
   \<and> fst (expireAt (snd (expireAt (run [Set (1::nat) (Val (10::nat)) Undefined]
        (Memorija_new 100)) 1 (Num 350))) 1 Undefined) = Num 350"
proof -
  let ?s = "run [Set (1::nat) (Val (10::nat)) Undefined] (Memorija_new 100)"
  let ?e = "\<lparr>re_id = 0, re_expireAt = Undefined, re_value = Val (10::nat)\<rparr>"
  have g: "getRawEntry ?s 1 = Some ?e"
    by (simp add: getRawEntry_set_m new_entry_def Memorija_new_def)
  have c: "Date_now ?s = 100" by (simp add: Date_now_def Memorija_new_def)
  have j: "js_sub (Num 350) 100 = Num 250" by (simp add: js_sub_def to_double_exact)
  have q: "ttl_in_range 100 (Num 250)" by (simp add: ttl_in_range_def exact_def)
  have v: "re_value ?e = Val 10" by simp
  note t = expireAt_equals_ttl_of_difference [OF g refl refl, of 350, unfolded c j]
  from t have 1: "snd (expireAt ?s 1 (Num 350)) = snd (ttl ?s 1 (Num 250))"
    by (rule conjunct1)
  from t v have 2: "get (snd (expireAt ?s 1 (Num 350))) 1 = Val 10"
    by metis
  have q': "ttl_in_range 100 (Num (350 - 100))" by (simp add: ttl_in_range_def exact_def)
  from t q' have 3: "fst (expireAt (snd (expireAt ?s 1 (Num 350))) 1 Undefined) = Num 350"
    by blast
  from g c j q 1 2 3 show ?thesis by blast
qed

section \<open>ttl with null\<close>

text \<open>
  C1 fails on the code. After \<open>set(1, 10, 100)\<close> and \<open>ttl(1, null)\<close> on a new map at
  time 0, the getter \<open>ttl(1)\<close> returns the number \<open>0\<close> (and \<open>- 5\<close> five milliseconds
  later), not \<open>null\<close>; a timeout due at once is pending for the key, and when it runs
  the key is gone. \<open>set\<close> tests its argument against \<open>undefined\<close> only, and \<open>null\<close>
  counts as the number \<open>0\<close>. The sibling \<open>expireAt(1, null)\<close> does what the
  documentation of both promises: afterwards \<open>ttl(1)\<close> is \<open>null\<close> and no timeout is
  pending.
\<close>

theorem ttl_null_expires_immediately:
  "has (run [Set (1::nat) (Val (10::nat)) (Num 100), Ttl 1 Null] (Memorija_new 0)) 1
   \<and> fst (ttl (run [Set (1::nat) (Val (10::nat)) (Num 100), Ttl 1 Null] (Memorija_new 0)) 1
        Undefined) = Num 0
   \<and> fst (ttl (run [Set (1::nat) (Val (10::nat)) (Num 100), Ttl 1 Null, Tick 5]
        (Memorija_new 0)) 1 Undefined) = Num (- 5)
   \<and> pending (run [Set (1::nat) (Val (10::nat)) (Num 100), Ttl 1 Null] (Memorija_new 0)) 1
       = Some \<lparr>due = 0, cb_key = 1, cb_entry = 1\<rparr>
   \<and> \<not> has (run [Set (1::nat) (Val (10::nat)) (Num 100), Ttl 1 Null, Fire 1]
        (Memorija_new 0)) 1
   \<and> fst (ttl (run [Set (1::nat) (Val (10::nat)) (Num 100), ExpireAt 1 Null]
        (Memorija_new 0)) 1 Undefined) = Null
   \<and> pending (run [Set (1::nat) (Val (10::nat)) (Num 100), ExpireAt 1 Null]
        (Memorija_new 0)) = Map.empty"
  by (simp add: eval_defs fun_eq_iff)

section \<open>No operation throws; a time to live of zero\<close>

lemma createTimer_chk_ok: "createTimer_chk s key entry t = Inr (createTimer s key entry t)"
  by (simp add: createTimer_chk_def createTimer_def WeakMap_set_def then_do_def
      split: prod.splits)

lemma set_chk_ok: "set_chk s key v t = Inr (set_m s key v t)"
  by (simp add: set_chk_def set_m_def Let_def createTimer_chk_ok)

lemma get_chk_ok: "get_chk s key = Inr (get s key)"
  by (simp add: get_chk_def get_def prop_of_def then_do_def Let_def split: option.splits)

lemma getEntry_chk_ok: "getEntry_chk s key = Inr (getEntry s key)"
  by (simp add: getEntry_chk_def getEntry_def prop_of_def then_do_def Let_def
      split: option.splits)

lemma ttl_chk_ok: "ttl_chk s key t = Inr (ttl s key t)"
  by (simp add: ttl_chk_def ttl_def getEntry_chk_ok set_chk_ok prop_of_def then_do_def
      split: option.splits)

lemma expireAt_chk_ok: "expireAt_chk s key x = Inr (expireAt s key x)"
  by (simp add: expireAt_chk_def expireAt_def set_chk_ok prop_of_def then_do_def Let_def
      split: option.splits)

lemma exec_chk_ok: "exec_chk ev s = Inr (exec ev s)"
  by (cases ev) (simp_all add: set_chk_ok ttl_chk_ok expireAt_chk_ok then_do_def)

lemma run_chk_ok: "run_chk evs s = Inr (run evs s)"
  by (induction evs arbitrary: s) (simp_all add: exec_chk_ok then_do_def)

text \<open>Any number of different keys can be set, one after the other: all of them are kept.\<close>

lemma keys_run_sets:
  "distinct ks \<Longrightarrow> set ks \<inter> set (keys s) = {} \<Longrightarrow>
     keys (run (map (\<lambda>k. Set k v t) ks) s) = keys s @ ks"
proof (induction ks arbitrary: s)
  case Nil
  show ?case by simp
next
  case (Cons k ks)
  from Cons.prems have n: "k \<notin> set (keys s)" "k \<notin> set ks" "distinct ks" by auto
  from n(1) have e: "keys (set_m s k v t) = keys s @ [k]" by (simp add: keys_set_m has_keys)
  from Cons.prems n have "set ks \<inter> set (keys (set_m s k v t)) = {}" by (auto simp: e)
  from Cons.IH [OF n(3) this] e show ?case by simp
qed

lemma size_run_sets:
  assumes "distinct ks"
  shows "keys (run (map (\<lambda>k. Set k v t) ks) (Memorija_new t0)) = ks"
    and "size_m (run (map (\<lambda>k. Set k v t) ks) (Memorija_new t0)) = length ks"
proof -
  from assms show 1: "keys (run (map (\<lambda>k. Set k v t) ks) (Memorija_new t0)) = ks"
    by (simp add: keys_run_sets keys_new)
  have "size_m s = length (keys s)" for s :: "('a, 'b) memorija"
    by (simp add: size_m_def keys_def)
  with 1 show "size_m (run (map (\<lambda>k. Set k v t) ks) (Memorija_new t0)) = length ks"
    by simp
qed

text \<open>
  C9. No operation throws: each operation written out with the \<open>TypeError\<close> of the host
  as a possible result returns what the operation returns, whatever the state and the
  arguments, and so does every run of events; the guards of the source keep every read
  of an index or a property away from \<open>undefined\<close>, and \<open>WeakMap.set\<close> gets the array
  just made. \<open>set(k, v, 0)\<close> is accepted from every reachable state: the key is present
  with its value, its deadline is the current time, and a timeout due at the current time
  is pending for it, which removes the key when the scheduler runs it. There is no bound
  on the number of keys: \<open>set\<close> on a new key makes the map one larger whatever its size,
  and setting any list of different keys on a new map leaves exactly these keys, as many
  as the list is long.
\<close>

theorem set_zero_ttl_accepted:
  fixes s st :: "('k, 'v) memorija" and ks :: "'k list"
  assumes "s = run evs (Memorija_new t0)" and "s' = set_m s k v (Num 0)"
  shows "has s' k \<and> get s' k = v
     \<and> fst (expireAt s' k Undefined) = Num (to_double (Date_now s))
     \<and> (exact (Date_now s) \<longrightarrow> fst (expireAt s' k Undefined) = Num (Date_now s))
     \<and> pending s' (next_handle s) = Some \<lparr>due = Date_now s, cb_key = k, cb_entry = next_obj s\<rparr>
     \<and> \<not> has (fire s' (next_handle s)) k
     \<and> size_m (set_m s k2 v2 t2) = (if has s k2 then size_m s else size_m s + 1)
     \<and> (distinct ks \<longrightarrow>
          keys (run (map (\<lambda>k. Set k v2 t2) ks) (Memorija_new t0 :: ('k, 'v) memorija)) = ks
          \<and> size_m (run (map (\<lambda>k. Set k v2 t2) ks) (Memorija_new t0 :: ('k, 'v) memorija))
              = length ks)
     \<and> exec_chk ev st = Inr (exec ev st)
     \<and> run_chk evs (Memorija_new t0) = Inr s
     \<and> get_chk st k2 = Inr (get st k2)
     \<and> getEntry_chk st k2 = Inr (getEntry st k2)
     \<and> ttl_chk st k2 t2 = Inr (ttl st k2 t2)
     \<and> expireAt_chk st k2 t2 = Inr (expireAt st k2 t2)
     \<and> wf_state (exec ev s)"
proof -
  from assms(1) have w: "wf_state s" by (simp add: wf_reachable)
  then have w': "wf_state s'" by (simp add: assms(2) wf_set_m)
  have r: "getRawEntry s' k = Some (new_entry s v (Num 0))"
    by (simp add: assms(2) getRawEntry_set_m)
  have p: "pending s' (next_handle s) = Some (new_timeout s k (Num 0))"
    by (simp add: assms(2) pending_set_m)
  have d: "due (new_timeout s k (Num 0)) \<le> clock s' + timer_slack"
    "cb_key (new_timeout s k (Num 0)) = k"
    by (simp_all add: assms(2) new_timeout_def timer_delay_def timer_slack_def)
  have f: "\<not> has (fire s' (next_handle s)) k"
    using d by (simp add: has_getRawEntry getRawEntry_fire [OF w' p])
  have z: "size_m (set_m s k2 v2 t2) = (if has s k2 then size_m s else size_m s + 1)"
    by (simp add: size_m_def has_def this_map_set_m length_Map_set)
  have n: "distinct ks \<longrightarrow>
      keys (run (map (\<lambda>k. Set k v2 t2) ks) (Memorija_new t0 :: ('k, 'v) memorija)) = ks
      \<and> size_m (run (map (\<lambda>k. Set k v2 t2) ks) (Memorija_new t0 :: ('k, 'v) memorija))
          = length ks"
    by (simp add: size_run_sets)
  have c: "exec_chk ev st = Inr (exec ev st)" "run_chk evs (Memorija_new t0) = Inr s"
    "get_chk st k2 = Inr (get st k2)" "getEntry_chk st k2 = Inr (getEntry st k2)"
    "ttl_chk st k2 t2 = Inr (ttl st k2 t2)" "expireAt_chk st k2 t2 = Inr (expireAt st k2 t2)"
    by (simp_all add: exec_chk_ok run_chk_ok get_chk_ok getEntry_chk_ok ttl_chk_ok
        expireAt_chk_ok assms(1))
  from r have g: "has s' k" "get s' k = v"
    "fst (expireAt s' k Undefined) = Num (to_double (Date_now s))"
    by (simp_all add: has_getRawEntry get_def expireAt_def new_entry_def js_add_def
        Date_now_def)
  then have e: "exact (Date_now s) \<longrightarrow> fst (expireAt s' k Undefined) = Num (Date_now s)"
    by (simp add: exact_def to_double_exact)
  from p have q: "pending s' (next_handle s)
      = Some \<lparr>due = Date_now s, cb_key = k, cb_entry = next_obj s\<rparr>"
    by (simp add: new_timeout_def timer_delay_def Date_now_def)
  from g e q f z n c wf_exec [OF w, of ev] show ?thesis by simp
qed

theorem set_zero_ttl_accepted_witness:
  "exact (Date_now (run [] (Memorija_new 7) :: (nat, nat) memorija))
   \<and> has (set_m (run [] (Memorija_new 7)) (1::nat) (Val (10::nat)) (Num 0)) 1
   \<and> fst (expireAt (set_m (run [] (Memorija_new 7)) (1::nat) (Val (10::nat)) (Num 0)) 1
        Undefined) = Num 7
   \<and> pending (set_m (run [] (Memorija_new 7)) (1::nat) (Val (10::nat)) (Num 0)) 0
       = Some \<lparr>due = 7, cb_key = 1, cb_entry = 0\<rparr>
   \<and> \<not> has (fire (set_m (run [] (Memorija_new 7)) (1::nat) (Val (10::nat)) (Num 0)) 0) 1
   \<and> distinct [3, 1, 2 :: nat]
   \<and> keys (run (map (\<lambda>k. Set k (Val (10::nat)) Undefined) [3, 1, 2 :: nat]) (Memorija_new 7))
       = [3, 1, 2]
   \<and> size_m (run (map (\<lambda>k. Set k (Val (10::nat)) Undefined) [3, 1, 2 :: nat])
        (Memorija_new 7)) = 3"
proof -
  have n: "next_handle (run [] (Memorija_new 7) :: (nat, nat) memorija) = 0"
    "next_obj (run [] (Memorija_new 7) :: (nat, nat) memorija) = 0"
    "Date_now (run [] (Memorija_new 7) :: (nat, nat) memorija) = 7"
    by (simp_all add: Memorija_new_def Date_now_def)
  have x: "exact (Date_now (run [] (Memorija_new 7) :: (nat, nat) memorija))"
    by (simp add: exact_def Date_now_def Memorija_new_def)
  have d: "distinct [3, 1, 2 :: nat]" by simp
  note t = set_zero_ttl_accepted [OF refl refl, where evs = "[]" and ?t0.0 = 7 and k = "1::nat"
      and v = "Val (10::nat)" and ?k2.0 = 1 and ?v2.0 = "Val 10" and ?t2.0 = Undefined
      and ev = Clear and st = "Memorija_new 7" and ks = "[3, 1, 2]"]
  from t x d n show ?thesis by (simp add: to_double_exact)
qed

end
